theory Spec2Isabelle
  imports Main "HOL-Library.Word"
begin

section \<open>Python values used by serial_monitor.py\<close>

text \<open>
  A Python \<open>str\<close> is a sequence of Unicode code points and a \<open>bytes\<close> object a
  sequence of octets.  String literals of the source are written with \<open>lit\<close>; the
  two-character combo-box labels \<open>\\n\<close> and \<open>\\r\<close> (a backslash and a letter) are
  written as code points.
\<close>

type_synonym byte = "8 word"
type_synonym pystr = "nat list"
type_synonym pybytes = "byte list"

definition lit :: "string \<Rightarrow> pystr" where
  "lit s = map of_char s"

text \<open>\<open>str.isspace\<close> of one character: the code points CPython treats as whitespace.\<close>

definition isspace :: "nat \<Rightarrow> bool" where
  "isspace c \<longleftrightarrow>
     (0x09 \<le> c \<and> c \<le> 0x0D) \<or> (0x1C \<le> c \<and> c \<le> 0x20) \<or> c = 0x85 \<or> c = 0xA0 \<or>
     c = 0x1680 \<or> (0x2000 \<le> c \<and> c \<le> 0x200A) \<or> c = 0x2028 \<or> c = 0x2029 \<or>
     c = 0x202F \<or> c = 0x205F \<or> c = 0x3000"

text \<open>\<open>text.rstrip()\<close>: drop the trailing whitespace characters.\<close>

definition rstrip :: "pystr \<Rightarrow> pystr" where
  "rstrip s = rev (dropWhile isspace (rev s))"

text \<open>\<open>str(n)\<close> for a non-negative integer, and \<open>s.zfill(w)\<close>-style zero padding as
  \<open>%H\<close>, \<open>%M\<close>, \<open>%S\<close> and \<open>%f\<close> of \<open>strftime\<close> apply it.\<close>

fun str_nat :: "nat \<Rightarrow> pystr" where
  "str_nat n = (if n < 10 then [48 + n] else str_nat (n div 10) @ [48 + n mod 10])"

declare str_nat.simps [simp del]

definition zfill :: "nat \<Rightarrow> pystr \<Rightarrow> pystr" where
  "zfill w s = replicate (w - length s) 48 @ s"

record datetime =
  hour :: nat
  minute :: nat
  second :: nat
  microsecond :: nat

text \<open>\<open>now.strftime("%H:%M:%S.%f")\<close>.\<close>

definition strftime_HMSf :: "datetime \<Rightarrow> pystr" where
  "strftime_HMSf t =
     zfill 2 (str_nat (hour t)) @ lit '':'' @ zfill 2 (str_nat (minute t)) @ lit '':'' @
     zfill 2 (str_nat (second t)) @ lit ''.'' @ zfill 6 (str_nat (microsecond t))"

text \<open>The slice \<open>s[:-3]\<close>.\<close>

definition drop_last3 :: "pystr \<Rightarrow> pystr" where
  "drop_last3 s = take (length s - 3) s"

text \<open>\<open>str.encode\<close> to UTF-8.  The only code points UTF-8 cannot encode are the
  surrogates; \<open>errors="replace"\<close> writes \<open>?\<close> for each, the default (strict) handler
  raises \<open>UnicodeEncodeError\<close>.\<close>

definition surrogate :: "nat \<Rightarrow> bool" where
  "surrogate c \<longleftrightarrow> 0xD800 \<le> c \<and> c \<le> 0xDFFF"

definition byte_of :: "nat \<Rightarrow> byte" where
  "byte_of n = of_nat n"

definition utf8_char :: "nat \<Rightarrow> pybytes" where
  "utf8_char c =
     (if c < 0x80 then [byte_of c]
      else if c < 0x800 then [byte_of (0xC0 + c div 64), byte_of (0x80 + c mod 64)]
      else if c < 0x10000 then
        [byte_of (0xE0 + c div 4096), byte_of (0x80 + c div 64 mod 64), byte_of (0x80 + c mod 64)]
      else
        [byte_of (0xF0 + c div 262144), byte_of (0x80 + c div 4096 mod 64),
         byte_of (0x80 + c div 64 mod 64), byte_of (0x80 + c mod 64)])"

definition encode_replace :: "pystr \<Rightarrow> pybytes" where
  "encode_replace s = concat (map (\<lambda>c. if surrogate c then [0x3F] else utf8_char c) s)"

definition encode_strict :: "pystr \<Rightarrow> pybytes option" where
  "encode_strict s = (if list_ex surrogate s then None else Some (concat (map utf8_char s)))"

text \<open>\<open>bytes.decode(errors="replace")\<close>: CPython's UTF-8 decoder.  \<open>utf8_next c bs\<close>
  reads one character that starts with the byte \<open>c\<close> and is followed by \<open>bs\<close>; it
  gives the code point and the bytes still to decode.  An invalid start byte, and the
  valid prefix of a sequence broken by a byte that cannot continue it, become one
  U+FFFD and decoding resumes at the offending byte; a sequence cut off by the end of
  the data becomes a single U+FFFD.\<close>

definition cont :: "nat \<Rightarrow> bool" where
  "cont b \<longleftrightarrow> 0x80 \<le> b \<and> b < 0xC0"

definition next2 :: "nat \<Rightarrow> nat list \<Rightarrow> nat \<times> nat list" where
  "next2 c bs =
     (case bs of
        [] \<Rightarrow> (0xFFFD, [])
      | b1 # bs1 \<Rightarrow>
          if cont b1 then ((c - 0xC0) * 64 + (b1 - 0x80), bs1) else (0xFFFD, bs))"

definition next3 :: "nat \<Rightarrow> nat list \<Rightarrow> nat \<times> nat list" where
  "next3 c bs =
     (case bs of
        [] \<Rightarrow> (0xFFFD, [])
      | b1 # bs1 \<Rightarrow>
          if \<not> cont b1 \<or> (c = 0xE0 \<and> b1 < 0xA0) \<or> (c = 0xED \<and> 0xA0 \<le> b1) then (0xFFFD, bs)
          else
            (case bs1 of
               [] \<Rightarrow> (0xFFFD, [])
             | b2 # bs2 \<Rightarrow>
                 if cont b2 then ((c - 0xE0) * 4096 + (b1 - 0x80) * 64 + (b2 - 0x80), bs2)
                 else (0xFFFD, bs1)))"

definition next4 :: "nat \<Rightarrow> nat list \<Rightarrow> nat \<times> nat list" where
  "next4 c bs =
     (case bs of
        [] \<Rightarrow> (0xFFFD, [])
      | b1 # bs1 \<Rightarrow>
          if \<not> cont b1 \<or> (c = 0xF0 \<and> b1 < 0x90) \<or> (c = 0xF4 \<and> 0x90 \<le> b1) then (0xFFFD, bs)
          else
            (case bs1 of
               [] \<Rightarrow> (0xFFFD, [])
             | b2 # bs2 \<Rightarrow>
                 if \<not> cont b2 then (0xFFFD, bs1)
                 else
                   (case bs2 of
                      [] \<Rightarrow> (0xFFFD, [])
                    | b3 # bs3 \<Rightarrow>
                        if cont b3
                        then ((c - 0xF0) * 262144 + (b1 - 0x80) * 4096 + (b2 - 0x80) * 64
                              + (b3 - 0x80), bs3)
                        else (0xFFFD, bs2))))"

definition utf8_next :: "nat \<Rightarrow> nat list \<Rightarrow> nat \<times> nat list" where
  "utf8_next c bs =
     (if c < 0x80 then (c, bs)
      else if c < 0xC2 then (0xFFFD, bs)
      else if c < 0xE0 then next2 c bs
      else if c < 0xF0 then next3 c bs
      else if c < 0xF5 then next4 c bs
      else (0xFFFD, bs))"

lemma utf8_next_shorter: "length (snd (utf8_next c bs)) \<le> length bs"
  by (simp add: utf8_next_def next2_def next3_def next4_def split: list.split)

function utf8_decode :: "nat list \<Rightarrow> pystr" where
  "utf8_decode [] = []"
| "utf8_decode (c # bs) = (case utf8_next c bs of (x, rest) \<Rightarrow> x # utf8_decode rest)"
  by pat_completeness auto
termination
proof (relation "measure length", goal_cases)
  case 1
  show ?case by simp
next
  case (2 c bs x rest)
  then have "rest = snd (utf8_next c bs)" by (metis snd_conv)
  then show ?case
    using utf8_next_shorter[of c bs] by simp
qed

declare utf8_decode.simps(2) [simp del]

definition decode_replace :: "pybytes \<Rightarrow> pystr" where
  "decode_replace line = utf8_decode (map unat line)"


text \<open>\<open>str(x)\<close> of a value that is \<open>None\<close> or a string, as an f-string renders it.\<close>

definition str_opt :: "pystr option \<Rightarrow> pystr" where
  "str_opt x = (case x of None \<Rightarrow> lit ''None'' | Some t \<Rightarrow> t)"

text \<open>Truth value of a value that is \<open>None\<close> or a string.\<close>

definition truthy :: "pystr option \<Rightarrow> bool" where
  "truthy x = (case x of None \<Rightarrow> False | Some t \<Rightarrow> t \<noteq> [])"

section \<open>The queue between the reader and the window\<close>

text \<open>A queue entry is \<open>(ts, text)\<close> with \<open>ts\<close> a string or \<open>None\<close>.  \<open>queue.Queue()\<close>
  is unbounded, so \<open>put\<close> never blocks; \<open>get_nowait\<close> raises \<open>queue.Empty\<close>
  (here \<open>None\<close>) instead of waiting.\<close>

type_synonym entry = "pystr option \<times> pystr"

definition put :: "entry list \<Rightarrow> entry \<Rightarrow> entry list" where
  "put q e = q @ [e]"

definition get_nowait :: "entry list \<Rightarrow> (entry \<times> entry list) option" where
  "get_nowait q = (case q of [] \<Rightarrow> None | e # q' \<Rightarrow> Some (e, q'))"

lemma foldl_put: "foldl put q es = q @ es"
  by (induction es arbitrary: q) (simp_all add: put_def)

section \<open>SerialReader\<close>

text \<open>What one call of \<open>self.ser.readline()\<close> does: it returns bytes (none after the
  0.2 s timeout) or raises an exception, of which the model keeps the text.\<close>

datatype read_outcome = Data pybytes | ReadRaises pystr

text \<open>The body of the \<open>while\<close> loop of \<open>SerialReader.run\<close>: the new queue, and whether
  the loop goes on (\<open>False\<close> is the \<open>break\<close>).  \<open>decode(errors="replace")\<close> does not
  raise, so the inner \<open>except\<close> branch (\<open>text = str(line)\<close>) is never taken.\<close>

definition loop_body :: "read_outcome \<Rightarrow> datetime \<Rightarrow> entry list \<Rightarrow> bool \<times> entry list" where
  "loop_body r now q =
     (case r of
        Data line \<Rightarrow>
          if line \<noteq> [] then
            (let text = decode_replace line;
                 ts = drop_last3 (strftime_HMSf now)
             in (True, put q (Some ts, text)))
          else (True, q)
      | ReadRaises e \<Rightarrow> (False, put q (None, lit ''[ERROR] '' @ e @ [0x0A])))"

text \<open>\<open>SerialReader.run\<close> on its own: each iteration is given the value of the stop
  event it observes, the outcome of its read and the clock.  The result is the queue
  and whether the thread is still in its loop when the observed iterations are over.\<close>

fun run :: "(bool \<times> read_outcome \<times> datetime) list \<Rightarrow> entry list \<Rightarrow> bool \<times> entry list" where
  "run [] q = (True, q)"
| "run ((is_set, r, now) # rest) q =
     (if is_set then (False, q)
      else (case loop_body r now q of
              (True, q') \<Rightarrow> run rest q'
            | (False, q') \<Rightarrow> (False, q')))"

section \<open>SerialMonitor\<close>

text \<open>A \<open>serial.Serial\<close> object: what it was opened with, whether it is open, and the
  bytes written to it so far.\<close>

record serial_port =
  device :: pystr
  baudrate :: nat
  is_open :: bool
  tx :: pybytes

text \<open>A started \<open>SerialReader\<close>: the port it reads and where it stands, at the loop
  condition, inside \<open>readline\<close>, or past the end of \<open>run\<close> (no longer alive).\<close>

datatype pc = AtLoopHead | InReadline | Exited

record reader_thread =
  t_ser :: nat
  t_pc :: pc

text \<open>The window.  \<open>ser\<close> and \<open>reader\<close> are references (or \<open>None\<close>) into \<open>ports\<close> and
  \<open>threads\<close>, the \<open>Serial\<close> and \<open>SerialReader\<close> objects created so far, which a reader
  shares with the window.  \<open>console\<close> holds the texts given to \<open>appendPlainText\<close> since
  the last \<open>clear\<close>, \<open>status\<close> the calls of \<open>showMessage\<close> (text, milliseconds),
  \<open>port_box\<close> holds the items (text, userData), \<open>files\<close> is the file system
  \<open>save_log\<close> writes to and \<open>os_linesep\<close> the line separator of the platform the
  program runs on (\<open>os.linesep\<close>: a line feed, or carriage return and line feed on
  Windows).\<close>

record monitor =
  ser :: "nat option"
  reader :: "nat option"
  queue :: "entry list"
  stop_event :: bool
  port_box :: "(pystr \<times> pystr option) list"
  port_box_index :: nat
  port_box_enabled :: bool
  baud_box :: nat
  connect_btn :: pystr
  timestamps_chk :: bool
  autoscroll_chk :: bool
  keep_text_chk :: bool
  console :: "pystr list"
  send_edit :: pystr
  eol_box :: pystr
  status :: "(pystr \<times> nat) list"
  ports :: "serial_port list"
  threads :: "reader_thread list"
  files :: "pystr \<Rightarrow> pybytes option"
  os_linesep :: pystr

text \<open>What a handler of the window gives: the exception that left it, if one did, and
  the window as the handler left it.  The objects are changed in place, so what a
  handler did before it raised stays done.\<close>

datatype error = AttributeError

type_synonym outcome = "error option \<times> monitor"

subsection \<open>Widgets\<close>

definition showMessage :: "pystr \<Rightarrow> nat \<Rightarrow> monitor \<Rightarrow> monitor" where
  "showMessage msg ms s = s\<lparr>status := status s @ [(msg, ms)]\<rparr>"

definition appendPlainText :: "pystr \<Rightarrow> monitor \<Rightarrow> monitor" where
  "appendPlainText t s = s\<lparr>console := console s @ [t]\<rparr>"

text \<open>What the console shows.  Qt keeps the text of the widget as a document of
  blocks, the displayed lines.  Inserting a text starts a new block at each line feed,
  carriage return (one block for a carriage return followed by a line feed), paragraph
  separator U+2029 and at the two frame marks U+FDD0 and U+FDD1; \<open>qt_blocks\<close> gives
  the blocks of a text.  \<open>appendPlainText\<close> puts the text into a new block at the end,
  unless the document is still empty (one empty block), in which case the text goes
  into that block.\<close>

definition qt_break :: "nat \<Rightarrow> bool" where
  "qt_break c \<longleftrightarrow> c = 0x0A \<or> c = 0x0D \<or> c = 0x2029 \<or> c = 0xFDD0 \<or> c = 0xFDD1"

fun qt_blocks :: "pystr \<Rightarrow> pystr list" where
  "qt_blocks [] = [[]]"
| "qt_blocks (c # cs) =
     (if c = 0x0D \<and> take 1 cs = [0x0A] then [] # qt_blocks (tl cs)
      else if qt_break c then [] # qt_blocks cs
      else (case qt_blocks cs of [] \<Rightarrow> [[c]] | b # bs \<Rightarrow> (c # b) # bs))"

definition qt_append :: "pystr list \<Rightarrow> pystr \<Rightarrow> pystr list" where
  "qt_append doc t = (if doc = [[]] then qt_blocks t else doc @ qt_blocks t)"

definition document :: "pystr list \<Rightarrow> pystr list" where
  "document c = foldl qt_append [[]] c"

text \<open>\<open>toPlainText\<close>: the blocks with a line feed between them; a line separator
  U+2028 inside a block is given as a line feed too, and a no-break space U+00A0 as a
  blank.\<close>

definition qt_plain :: "nat \<Rightarrow> nat" where
  "qt_plain c =
     (if c = 0xFDD0 \<or> c = 0xFDD1 \<or> c = 0x2029 \<or> c = 0x2028 then 0x0A
      else if c = 0xA0 then 0x20
      else c)"

fun join_lines :: "pystr list \<Rightarrow> pystr" where
  "join_lines [] = []"
| "join_lines [b] = b"
| "join_lines (b # bs) = b @ [0x0A] @ join_lines bs"

definition toPlainText :: "pystr list \<Rightarrow> pystr" where
  "toPlainText c = join_lines (map (map qt_plain) (document c))"

text \<open>The three lines \<open>cursor = self.console.textCursor()\<close>,
  \<open>cursor.movePosition(cursor.End)\<close>, \<open>self.console.setTextCursor(cursor)\<close>.
  PySide6 keeps the enumerator as \<open>QTextCursor.MoveOperation.End\<close>; its short name
  \<open>End\<close> is found on the class but not on an object of it, so evaluating
  \<open>cursor.End\<close> raises \<open>AttributeError\<close> before the cursor is moved.\<close>

definition move_to_end :: "monitor \<Rightarrow> outcome" where
  "move_to_end s = (Some AttributeError, s)"

definition currentData :: "monitor \<Rightarrow> pystr option" where
  "currentData s =
     (if port_box_index s < length (port_box s) then snd (port_box s ! port_box_index s)
      else None)"

definition currentText :: "monitor \<Rightarrow> pystr" where
  "currentText s =
     (if port_box_index s < length (port_box s) then fst (port_box s ! port_box_index s)
      else [])"

subsection \<open>Serial helpers\<close>

text \<open>\<open>refresh_ports\<close>, given what \<open>comports()\<close> lists (device, description).\<close>

definition refresh_ports :: "(pystr \<times> pystr) list \<Rightarrow> monitor \<Rightarrow> monitor" where
  "refresh_ports comports s =
     (let items = map (\<lambda>(dev, desc). (dev @ [0x20, 0x2014, 0x20] @ desc, Some dev)) comports
      in s\<lparr>port_box := (if length items = 0 then [(lit ''(No ports found)'', None)] else items),
            port_box_index := 0\<rparr>)"

text \<open>\<open>self.ser and self.ser.is_open\<close>.\<close>

definition connected :: "monitor \<Rightarrow> bool" where
  "connected s =
     (case ser s of None \<Rightarrow> False | Some p \<Rightarrow> p < length (ports s) \<and> is_open (ports s ! p))"

text \<open>\<open>is_alive()\<close> of the thread \<open>t\<close>, and \<open>self.reader and self.reader.is_alive()\<close>.\<close>

definition alive :: "monitor \<Rightarrow> nat \<Rightarrow> bool" where
  "alive s t \<longleftrightarrow> t < length (threads s) \<and> t_pc (threads s ! t) \<noteq> Exited"

definition reader_alive :: "monitor \<Rightarrow> bool" where
  "reader_alive s = (case reader s of None \<Rightarrow> False | Some t \<Rightarrow> alive s t)"

definition append_text :: "pystr \<Rightarrow> monitor \<Rightarrow> outcome" where
  "append_text text s =
     (let s1 = appendPlainText (rstrip text) s
      in if autoscroll_chk s1 then move_to_end s1 else (None, s1))"

text \<open>The outcome of \<open>serial.Serial(device, baudrate=baud, timeout=0.2)\<close>.\<close>

datatype open_outcome = Opened | OpenRaises pystr

text \<open>The device name \<open>connect_serial\<close> opens: the item's userData, or the first word
  of its text (\<open>split(" ")[0]\<close>) when there is none or it starts with a parenthesis.\<close>

definition chosen_device :: "monitor \<Rightarrow> pystr" where
  "chosen_device s =
     (let device = currentData s
      in if \<not> truthy device \<or> (case device of Some d \<Rightarrow> take 1 d = lit ''('' | None \<Rightarrow> False)
         then takeWhile (\<lambda>c. c \<noteq> 0x20) (currentText s)
         else str_opt device)"

text \<open>\<open>connect_serial\<close>.  When \<open>append_text\<close> raises in the \<open>except\<close> branch, the
  exception leaves the handler and \<open>showMessage\<close> is not reached.\<close>

definition connect_serial :: "open_outcome \<Rightarrow> monitor \<Rightarrow> outcome" where
  "connect_serial oo s =
     (if length (port_box s) = 0 then append_text (lit ''[INFO] No ports to open.'' @ [0x0A]) s
      else
        let device = chosen_device s;
            baud = baud_box s
        in case oo of
             OpenRaises e \<Rightarrow>
               (case append_text
                       (lit ''[ERROR] Could not open '' @ device @ lit '' @ '' @ str_nat baud @
                        lit '': '' @ e @ [0x0A]) s of
                  (Some x, s1) \<Rightarrow> (Some x, s1)
                | (None, s1) \<Rightarrow> (None, showMessage (lit ''Failed to connect: '' @ e) 5000 s1))
           | Opened \<Rightarrow>
               let s1 = s\<lparr>ports := ports s @
                                  [\<lparr>device = device, baudrate = baud, is_open = True, tx = []\<rparr>],
                          ser := Some (length (ports s))\<rparr>;
                   s2 = s1\<lparr>stop_event := False\<rparr>;
                   s3 = s2\<lparr>threads := threads s2 @ [\<lparr>t_ser = length (ports s), t_pc = AtLoopHead\<rparr>],
                           reader := Some (length (threads s2))\<rparr>;
                   s4 = s3\<lparr>connect_btn := lit ''Disconnect''\<rparr>;
                   s5 = s4\<lparr>port_box_enabled := False\<rparr>
               in (None, showMessage (lit ''Connected: '' @ device @ lit '' @ '' @ str_nat baud) 3000 s5))"

text \<open>One step of the reader thread \<open>t\<close>: at the loop condition it tests the stop
  event; inside \<open>readline\<close> it finishes the iteration with the outcome of the read.\<close>

definition set_pc :: "nat \<Rightarrow> pc \<Rightarrow> monitor \<Rightarrow> monitor" where
  "set_pc t p s = s\<lparr>threads := (threads s)[t := (threads s ! t)\<lparr>t_pc := p\<rparr>]\<rparr>"

definition thread_step :: "nat \<Rightarrow> read_outcome \<times> datetime \<Rightarrow> monitor \<Rightarrow> monitor" where
  "thread_step t env s =
     (if \<not> t < length (threads s) then s
      else case t_pc (threads s ! t) of
             Exited \<Rightarrow> s
           | AtLoopHead \<Rightarrow> if stop_event s then set_pc t Exited s else set_pc t InReadline s
           | InReadline \<Rightarrow>
               (case loop_body (fst env) (snd env) (queue s) of
                  (True, q') \<Rightarrow> set_pc t AtLoopHead (s\<lparr>queue := q'\<rparr>)
                | (False, q') \<Rightarrow> set_pc t Exited (s\<lparr>queue := q'\<rparr>)))"

text \<open>\<open>self.reader.join(timeout=1.0)\<close>: while the window waits, the reader takes the
  steps the outcome lists; the call returns when the reader has exited or the time is
  up, whichever is first, so the reader may still be alive afterwards.  \<open>JoinRaises\<close>
  is a \<open>join\<close> that raises.\<close>

datatype join_outcome = JoinReturns "(read_outcome \<times> datetime) list" | JoinRaises

datatype close_outcome = Closed | CloseRaises

definition join :: "join_outcome \<Rightarrow> nat \<Rightarrow> monitor \<Rightarrow> monitor" where
  "join jo t s = (case jo of JoinReturns sched \<Rightarrow> fold (thread_step t) sched s | JoinRaises \<Rightarrow> s)"

definition close_port :: "close_outcome \<Rightarrow> nat \<Rightarrow> monitor \<Rightarrow> monitor" where
  "close_port co p s =
     (case co of
        Closed \<Rightarrow> s\<lparr>ports := (ports s)[p := (ports s ! p)\<lparr>is_open := False\<rparr>]\<rparr>
      | CloseRaises \<Rightarrow> s)"

text \<open>The first \<open>try\<close> block of \<open>disconnect_serial\<close>; an exception of \<open>join\<close> is
  swallowed by its \<open>except\<close>.\<close>

definition stop_and_join :: "join_outcome \<Rightarrow> monitor \<Rightarrow> monitor" where
  "stop_and_join jo s =
     (let s1 = s\<lparr>stop_event := True\<rparr>
      in case reader s1 of
           None \<Rightarrow> s1
         | Some t \<Rightarrow> if alive s1 t then join jo t s1 else s1)"

text \<open>The second \<open>try\<close> block; an exception of \<open>close\<close> is swallowed likewise.\<close>

definition close_if_open :: "close_outcome \<Rightarrow> monitor \<Rightarrow> monitor" where
  "close_if_open co s =
     (case ser s of
        None \<Rightarrow> s
      | Some p \<Rightarrow> if connected s then close_port co p s else s)"

definition disconnect_serial :: "join_outcome \<Rightarrow> close_outcome \<Rightarrow> monitor \<Rightarrow> monitor" where
  "disconnect_serial jo co s =
     (let s1 = stop_and_join jo s;
          s2 = close_if_open co s1;
          s3 = s2\<lparr>reader := None\<rparr>;
          s4 = s3\<lparr>ser := None\<rparr>;
          s5 = s4\<lparr>connect_btn := lit ''Connect''\<rparr>;
          s6 = s5\<lparr>port_box_enabled := True\<rparr>
      in showMessage (lit ''Disconnected'') 2000 s6)"

definition toggle_connection ::
  "open_outcome \<Rightarrow> join_outcome \<Rightarrow> close_outcome \<Rightarrow> monitor \<Rightarrow> outcome" where
  "toggle_connection oo jo co s =
     (if connected s then (None, disconnect_serial jo co s) else connect_serial oo s)"

subsection \<open>The poll loop\<close>

text \<open>The line \<open>flush_queue\<close> appends for an entry.\<close>

definition entry_line :: "bool \<Rightarrow> entry \<Rightarrow> pystr" where
  "entry_line checked e =
     (case e of (ts, text) \<Rightarrow>
        if checked \<and> truthy ts then lit ''['' @ str_opt ts @ lit ''] '' @ rstrip text
        else rstrip text)"

text \<open>The \<open>while True\<close> loop of \<open>flush_queue\<close>, with the flag \<open>appended\<close>.\<close>

function flush_loop :: "monitor \<Rightarrow> bool \<Rightarrow> monitor \<times> bool" where
  "flush_loop s appended =
     (case get_nowait (queue s) of
        None \<Rightarrow> (s, appended)
      | Some (e, q') \<Rightarrow>
          flush_loop (appendPlainText (entry_line (timestamps_chk s) e) (s\<lparr>queue := q'\<rparr>)) True)"
  by pat_completeness auto
termination
  by (relation "measure (\<lambda>(s, appended). length (queue s))")
     (auto simp: get_nowait_def appendPlainText_def split: list.splits)

declare flush_loop.simps [simp del]

definition flush_queue :: "monitor \<Rightarrow> outcome" where
  "flush_queue s =
     (case flush_loop s False of
        (s1, appended) \<Rightarrow> if appended \<and> autoscroll_chk s1 then move_to_end s1 else (None, s1))"

text \<open>The same pass while the reader thread keeps running: before each \<open>get_nowait\<close>
  the entries the reader has put since the previous one, the head of \<open>arrivals\<close>, are
  on the queue.  The result also gives the arrivals the pass did not wait for.\<close>

definition arrived :: "entry list list \<Rightarrow> entry list" where
  "arrived arrivals = (case arrivals of [] \<Rightarrow> [] | b # _ \<Rightarrow> b)"

function flush_loop_during ::
  "entry list list \<Rightarrow> monitor \<Rightarrow> bool \<Rightarrow> monitor \<times> bool \<times> entry list list" where
  "flush_loop_during arrivals s appended =
     (let s1 = s\<lparr>queue := foldl put (queue s) (arrived arrivals)\<rparr>
      in case get_nowait (queue s1) of
           None \<Rightarrow> (s1, appended, tl arrivals)
         | Some (e, q') \<Rightarrow>
             flush_loop_during (tl arrivals)
               (appendPlainText (entry_line (timestamps_chk s1) e) (s1\<lparr>queue := q'\<rparr>)) True)"
  by pat_completeness auto
termination
proof (relation "measure (\<lambda>(arrivals, s, appended).
        length (queue s) + length (concat arrivals) + length arrivals)", goal_cases)
  case 1
  show ?case by simp
next
  case (2 arrivals s appended s1 x e q')
  then have "foldl put (queue s) (arrived arrivals) = e # q'"
    by (auto simp: get_nowait_def split: list.splits)
  then have "length (foldl put (queue s) (arrived arrivals)) = length (e # q')" by simp
  then have "length (queue s) + length (arrived arrivals) = Suc (length q')"
    by (simp add: foldl_put)
  with 2 show ?case
    by (cases arrivals) (simp_all add: arrived_def appendPlainText_def)
qed

declare flush_loop_during.simps [simp del]

definition flush_queue_during :: "entry list list \<Rightarrow> monitor \<Rightarrow> outcome \<times> entry list list" where
  "flush_queue_during arrivals s =
     (case flush_loop_during arrivals s False of
        (s1, appended, rest) \<Rightarrow>
          (if appended \<and> autoscroll_chk s1 then move_to_end s1 else (None, s1), rest))"

subsection \<open>Sending\<close>

text \<open>The outcome of \<open>self.ser.write(...)\<close>.\<close>

datatype write_outcome = Written | WriteRaises pystr

text \<open>The text handed to \<open>encode\<close>: the input with the line ending the EOL box names.
  The box shows the four labels \<open>None\<close>, \<open>\\n\<close>, \<open>\\r\<close>, \<open>\\r\\n\<close>, a backslash
  (0x5C) and a letter each.\<close>

definition eol_items :: "pystr list" where
  "eol_items = [lit ''None'', [0x5C, 0x6E], [0x5C, 0x72], [0x5C, 0x72, 0x5C, 0x6E]]"

definition with_eol :: "pystr \<Rightarrow> pystr \<Rightarrow> pystr" where
  "with_eol eol data =
     (if eol = [0x5C, 0x6E] then data @ [0x0A]
      else if eol = [0x5C, 0x72] then data @ [0x0D]
      else if eol = [0x5C, 0x72, 0x5C, 0x6E] then data @ [0x0D, 0x0A]
      else data)"

text \<open>\<open>self.ser.write(bs)\<close> when it does not raise: the port takes the bytes.\<close>

definition ser_write :: "pybytes \<Rightarrow> monitor \<Rightarrow> monitor" where
  "ser_write bs s =
     (case ser s of
        None \<Rightarrow> s
      | Some p \<Rightarrow> s\<lparr>ports := (ports s)[p := (ports s ! p)\<lparr>tx := tx (ports s ! p) @ bs\<rparr>]\<rparr>)"

definition send_text :: "write_outcome \<Rightarrow> monitor \<Rightarrow> outcome" where
  "send_text wo s =
     (if \<not> connected s then (None, showMessage (lit ''Not connected'') 2000 s)
      else
        let data = with_eol (eol_box s) (send_edit s)
        in (case wo of
              Written \<Rightarrow>
                (let s1 = ser_write (encode_replace data) s
                 in (None, if \<not> keep_text_chk s1 then s1\<lparr>send_edit := []\<rparr> else s1))
            | WriteRaises e \<Rightarrow> append_text (lit ''[ERROR] send failed: '' @ e @ [0x0A]) s))"

subsection \<open>The log\<close>

definition clear_log :: "monitor \<Rightarrow> monitor" where
  "clear_log s = s\<lparr>console := []\<rparr>"

text \<open>What happens to the file in \<open>save_log\<close>: \<open>open\<close> raises; or the file is opened
  (and so emptied) and \<open>write\<close> or the closing flush raises after some bytes went out;
  or neither raises.  The file is opened in text mode, so each line feed of the text
  is written as the platform's line separator (\<open>newline_out\<close>), and the text is
  encoded by the strict UTF-8 codec, which raises on a surrogate before anything is
  written; the wording of that exception is \<open>codec_error\<close>.\<close>

datatype file_outcome = FileOk | FileOpenRaises pystr | FileWriteRaises pystr nat

definition codec_error :: pystr where
  "codec_error = lit ''surrogates not allowed''"

definition newline_out :: "pystr \<Rightarrow> pystr \<Rightarrow> pystr" where
  "newline_out sep t = concat (map (\<lambda>c. if c = 0x0A then sep else [c]) t)"

definition written_bytes :: "monitor \<Rightarrow> pybytes option" where
  "written_bytes s = encode_strict (newline_out (os_linesep s) (toPlainText (console s)))"

definition save_log :: "pystr \<Rightarrow> file_outcome \<Rightarrow> monitor \<Rightarrow> monitor" where
  "save_log path fo s =
     (if path = [] then s
      else case fo of
             FileOpenRaises e \<Rightarrow> showMessage (lit ''Save failed: '' @ e) 5000 s
           | FileWriteRaises e n \<Rightarrow>
               (case written_bytes s of
                  None \<Rightarrow>
                    showMessage (lit ''Save failed: '' @ codec_error) 5000
                      (s\<lparr>files := (files s)(path \<mapsto> [])\<rparr>)
                | Some bs \<Rightarrow>
                    showMessage (lit ''Save failed: '' @ e) 5000
                      (s\<lparr>files := (files s)(path \<mapsto> take n bs)\<rparr>))
           | FileOk \<Rightarrow>
               (case written_bytes s of
                  None \<Rightarrow>
                    showMessage (lit ''Save failed: '' @ codec_error) 5000
                      (s\<lparr>files := (files s)(path \<mapsto> [])\<rparr>)
                | Some bs \<Rightarrow>
                    showMessage (lit ''Saved: '' @ path) 3000
                      (s\<lparr>files := (files s)(path \<mapsto> bs)\<rparr>)))"

text \<open>Reading a file back in text mode: the bytes are decoded and a carriage return
  followed by a line feed, or alone, is read as a line feed.\<close>

fun universal_newlines :: "pystr \<Rightarrow> pystr" where
  "universal_newlines [] = []"
| "universal_newlines (c # cs) =
     (if c = 0x0D \<and> take 1 cs = [0x0A] then 0x0A # universal_newlines (tl cs)
      else if c = 0x0D then 0x0A # universal_newlines cs
      else c # universal_newlines cs)"

definition read_text :: "pybytes \<Rightarrow> pystr" where
  "read_text bs = universal_newlines (decode_replace bs)"

section \<open>The running program\<close>

text \<open>The window as \<open>__init__\<close> leaves it, given the ports the system lists, the
  file system and the platform's line separator.\<close>

definition init ::
  "(pystr \<times> pystr) list \<Rightarrow> (pystr \<Rightarrow> pybytes option) \<Rightarrow> pystr \<Rightarrow> monitor" where
  "init comports fs sep =
     refresh_ports comports
       \<lparr>ser = None, reader = None, queue = [], stop_event = False,
        port_box = [], port_box_index = 0, port_box_enabled = True,
        baud_box = 115200, connect_btn = lit ''Connect'',
        timestamps_chk = True, autoscroll_chk = True, keep_text_chk = False,
        console = [], send_edit = [], eol_box = lit ''None'',
        status = [], ports = [], threads = [], files = fs, os_linesep = sep\<rparr>"

definition baud_items :: "nat list" where
  "baud_items = [300, 600, 1200, 2400, 4800, 9600, 19200, 38400, 57600, 115200, 230400,
                 460800, 921600]"

text \<open>What can happen next: a signal of a widget or of the timer runs its slot on the
  UI thread, the user changes a widget, or a reader thread takes a step.  Each event
  carries what the world outside the program decides.  An exception that leaves a
  slot is reported by the binding and the event loop goes on, with the window as the
  slot left it.\<close>

datatype event =
    ClickConnect open_outcome join_outcome close_outcome
  | TimerTick
  | ClickSend write_outcome
  | ClickRefresh "(pystr \<times> pystr) list"
  | ClickSave pystr file_outcome
  | ClickClear
  | ReaderStep nat "read_outcome \<times> datetime"
  | TypeText pystr
  | SetTimestamps bool
  | SetAutoscroll bool
  | SetKeepText bool
  | SelectPort nat
  | SelectBaud nat
  | SelectEol nat

fun fire :: "event \<Rightarrow> monitor \<Rightarrow> monitor" where
  "fire (ClickConnect oo jo co) s = snd (toggle_connection oo jo co s)"
| "fire TimerTick s = snd (flush_queue s)"
| "fire (ClickSend wo) s = snd (send_text wo s)"
| "fire (ClickRefresh comports) s = refresh_ports comports s"
| "fire (ClickSave path fo) s = save_log path fo s"
| "fire ClickClear s = clear_log s"
| "fire (ReaderStep t env) s = thread_step t env s"
| "fire (TypeText text) s = s\<lparr>send_edit := text\<rparr>"
| "fire (SetTimestamps b) s = s\<lparr>timestamps_chk := b\<rparr>"
| "fire (SetAutoscroll b) s = s\<lparr>autoscroll_chk := b\<rparr>"
| "fire (SetKeepText b) s = s\<lparr>keep_text_chk := b\<rparr>"
| "fire (SelectPort i) s =
     (if port_box_enabled s \<and> i < length (port_box s) then s\<lparr>port_box_index := i\<rparr> else s)"
| "fire (SelectBaud i) s = (if i < length baud_items then s\<lparr>baud_box := baud_items ! i\<rparr> else s)"
| "fire (SelectEol i) s = (if i < length eol_items then s\<lparr>eol_box := eol_items ! i\<rparr> else s)"

definition run_events :: "event list \<Rightarrow> monitor \<Rightarrow> monitor" where
  "run_events es s = fold fire es s"

section \<open>Notions the properties are stated with\<close>

text \<open>A value \<open>datetime.now()\<close> can return.\<close>

definition valid_time :: "datetime \<Rightarrow> bool" where
  "valid_time t \<longleftrightarrow> hour t < 24 \<and> minute t < 60 \<and> second t < 60 \<and> microsecond t < 1000000"

text \<open>A text ends in whitespace.\<close>

definition ends_in_space :: "pystr \<Rightarrow> bool" where
  "ends_in_space t \<longleftrightarrow> t \<noteq> [] \<and> isspace (last t)"

text \<open>A well-formed Python string: code points below 0x110000.\<close>

definition wf_str :: "pystr \<Rightarrow> bool" where
  "wf_str t \<longleftrightarrow> list_all (\<lambda>c. c < 0x110000) t"

text \<open>Reader threads that are alive, and ports that are open.\<close>

definition alive_count :: "monitor \<Rightarrow> nat" where
  "alive_count s = length (filter (\<lambda>t. t_pc t \<noteq> Exited) (threads s))"

definition open_count :: "monitor \<Rightarrow> nat" where
  "open_count s = length (filter is_open (ports s))"

text \<open>A run in which every \<open>join\<close> of a teardown returns only after the reader has
  exited, and a run in which no \<open>close\<close> of a teardown raises.\<close>

definition joined_teardown :: "event \<Rightarrow> monitor \<Rightarrow> bool" where
  "joined_teardown e s =
     (case e of
        ClickConnect oo jo co \<Rightarrow>
          if connected s then \<not> reader_alive (stop_and_join jo s) else True
      | _ \<Rightarrow> True)"

fun joined_run :: "event list \<Rightarrow> monitor \<Rightarrow> bool" where
  "joined_run [] s = True"
| "joined_run (e # es) s = (joined_teardown e s \<and> joined_run es (fire e s))"

definition closing_teardown :: "event \<Rightarrow> monitor \<Rightarrow> bool" where
  "closing_teardown e s =
     (case e of
        ClickConnect oo jo co \<Rightarrow> if connected s then co = Closed else True
      | _ \<Rightarrow> True)"

fun closing_run :: "event list \<Rightarrow> monitor \<Rightarrow> bool" where
  "closing_run [] s = True"
| "closing_run (e # es) s = (closing_teardown e s \<and> closing_run es (fire e s))"

text \<open>A text has a character at which the console starts a new line: one that
  starts a new block, or the line separator U+2028, which breaks the line inside its
  block.\<close>

definition has_break :: "pystr \<Rightarrow> bool" where
  "has_break t = list_ex (\<lambda>c. qt_break c \<or> c = 0x2028) t"

text \<open>The lines of a text that is read back, \<open>text.split("\\n")\<close>.\<close>

fun split_lines :: "pystr \<Rightarrow> pystr list" where
  "split_lines [] = [[]]"
| "split_lines (c # cs) =
     (if c = 0x0A then [] # split_lines cs
      else (case split_lines cs of [] \<Rightarrow> [[c]] | b # bs \<Rightarrow> (c # b) # bs))"

text \<open>No displayed line holds a character that \<open>toPlainText\<close> replaces.\<close>

definition plain_lines :: "pystr list \<Rightarrow> bool" where
  "plain_lines c = list_all (list_all (\<lambda>x. x \<noteq> 0x2028 \<and> x \<noteq> 0xA0)) (document c)"

text \<open>The \<open>w\<close> low decimal digits of \<open>n\<close>, most significant first.\<close>

fun zpad :: "nat \<Rightarrow> nat \<Rightarrow> pystr" where
  "zpad 0 n = []"
| "zpad (Suc w) n = zpad w (n div 10) @ [48 + n mod 10]"

text \<open>The two invariants: a thread that is alive is the one the window refers to, and
  the window refers to a reader only while it is connected; an open port is the one
  the window refers to.\<close>

definition one_reader :: "monitor \<Rightarrow> bool" where
  "one_reader s \<longleftrightarrow>
     (\<forall>t < length (threads s). t_pc (threads s ! t) \<noteq> Exited \<longrightarrow> reader s = Some t) \<and>
     (reader s \<noteq> None \<longrightarrow> connected s)"

definition one_port :: "monitor \<Rightarrow> bool" where
  "one_port s \<longleftrightarrow> (\<forall>p < length (ports s). is_open (ports s ! p) \<longrightarrow> ser s = Some p)"

section \<open>Example states and runs\<close>

text \<open>A clock reading; the window at start-up with one port listed, where the line
  separator is a line feed; the same after a successful connect; after the reader has
  entered \<open>readline\<close>; with \<open>AT\<close> typed and the line ending \<open>\\r\\n\<close> chosen; with two
  lines on the console; the last on Windows; and with a line that holds a no-break
  space.\<close>

definition example_time :: datetime where
  "example_time = \<lparr>hour = 9, minute = 5, second = 7, microsecond = 123456\<rparr>"

definition example_idle :: monitor where
  "example_idle = init [(lit ''COM3'', lit ''USB Serial Port'')] Map.empty [0x0A]"

definition example_connected :: monitor where
  "example_connected = snd (connect_serial Opened example_idle)"


definition example_typed :: monitor where
  "example_typed = example_connected\<lparr>send_edit := lit ''AT'', eol_box := [0x5C, 0x72, 0x5C, 0x6E]\<rparr>"

definition example_log :: monitor where
  "example_log = example_idle\<lparr>console := [lit ''hi'', lit ''ok'']\<rparr>"

definition example_log_windows :: monitor where
  "example_log_windows = example_log\<lparr>os_linesep := [0x0D, 0x0A]\<rparr>"

definition example_log_nbsp :: monitor where
  "example_log_nbsp = example_idle\<lparr>console := [[0x61, 0xA0, 0x62]]\<rparr>"

text \<open>Connect, let the reader enter \<open>readline\<close>, disconnect, connect again.  In the
  first run the reader takes two steps while \<open>join\<close> waits and exits, and \<open>close\<close>
  returns; in the second \<open>join\<close> times out before the reader has taken a step; in the
  third the reader exits in time and \<open>close\<close> raises.\<close>

definition example_clean_run :: "event list" where
  "example_clean_run =
     [ClickConnect Opened (JoinReturns []) Closed,
      ReaderStep 0 (Data [], example_time),
      ClickConnect Opened (JoinReturns [(Data [], example_time), (Data [], example_time)]) Closed,
      ClickConnect Opened (JoinReturns []) Closed]"

definition example_timeout_run :: "event list" where
  "example_timeout_run =
     [ClickConnect Opened (JoinReturns []) Closed,
      ReaderStep 0 (Data [], example_time),
      ClickConnect Opened (JoinReturns []) Closed,
      ClickConnect Opened (JoinReturns []) Closed]"

definition example_close_raises_run :: "event list" where
  "example_close_raises_run =
     [ClickConnect Opened (JoinReturns []) Closed,
      ReaderStep 0 (Data [], example_time),
      ClickConnect Opened (JoinReturns [(Data [], example_time), (Data [], example_time)])
        CloseRaises,
      ClickConnect Opened (JoinReturns []) Closed]"

section \<open>Facts about the Python values\<close>

subsection \<open>The decoder yields well-formed text\<close>

lemma next2_valid:
  "0xC2 \<le> c \<Longrightarrow> c < 0xE0 \<Longrightarrow>
   fst (next2 c bs) < 0x110000 \<and> \<not> surrogate (fst (next2 c bs))"
  by (auto simp: next2_def cont_def surrogate_def split: list.split)

lemma next3_valid:
  assumes "0xE0 \<le> c" "c < 0xF0"
  shows "fst (next3 c bs) < 0x110000 \<and> \<not> surrogate (fst (next3 c bs))"
proof -
  consider "c < 0xED" | "c = 0xED" | "0xED < c" by linarith
  then show ?thesis
    using assms
    by cases (auto simp: next3_def cont_def surrogate_def split: list.split)
qed

lemma next4_valid:
  assumes "0xF0 \<le> c" "c < 0xF5"
  shows "fst (next4 c bs) < 0x110000 \<and> \<not> surrogate (fst (next4 c bs))"
proof -
  consider "c < 0xF4" | "c = 0xF4" using assms by linarith
  then show ?thesis
    using assms
    by cases (auto simp: next4_def cont_def surrogate_def split: list.split)
qed

lemma utf8_next_valid:
  "fst (utf8_next c bs) < 0x110000 \<and> \<not> surrogate (fst (utf8_next c bs))"
  using next2_valid[of c bs] next3_valid[of c bs] next4_valid[of c bs]
  by (simp add: utf8_next_def surrogate_def)

lemma utf8_decode_valid:
  "list_all (\<lambda>c. c < 0x110000 \<and> \<not> surrogate c) (utf8_decode bs)"
proof (induction bs rule: utf8_decode.induct)
  case 1
  then show ?case by simp
next
  case (2 c bs)
  obtain x rest where n: "utf8_next c bs = (x, rest)" by (cases "utf8_next c bs")
  from "2.IH"[OF n[symmetric]]
  have "list_all (\<lambda>c. c < 0x110000 \<and> \<not> surrogate c) (utf8_decode rest)" .
  moreover have "x < 0x110000 \<and> \<not> surrogate x" using utf8_next_valid[of c bs] n by simp
  ultimately show ?case by (simp add: utf8_decode.simps(2) n)
qed

subsection \<open>Decoding what the encoder wrote\<close>

lemma unat_byte: "n < 256 \<Longrightarrow> unat (byte_of n) = n"
  by (simp add: byte_of_def unat_of_nat)

lemma byte_of_numeral [simp]: "byte_of (numeral k) = numeral k"
  by (simp add: byte_of_def)

lemma split3: "(c::nat) = c div 4096 * 4096 + c div 64 mod 64 * 64 + c mod 64"
proof -
  have "c mod (64 * 64) = 64 * (c div 64 mod 64) + c mod 64" by (rule mod_mult2_eq)
  moreover have "c = c div 4096 * 4096 + c mod 4096" by simp
  ultimately show ?thesis by simp
qed

lemma split4:
  "(c::nat) = c div 262144 * 262144 + c div 4096 mod 64 * 4096 + c div 64 mod 64 * 64 + c mod 64"
proof -
  have "c mod (4096 * 64) = 4096 * (c div 4096 mod 64) + c mod 4096" by (rule mod_mult2_eq)
  moreover have "c mod (64 * 64) = 64 * (c div 64 mod 64) + c mod 64" by (rule mod_mult2_eq)
  moreover have "c = c div 262144 * 262144 + c mod 262144" by simp
  ultimately show ?thesis by simp
qed

lemma dec1: "c < 0x80 \<Longrightarrow> utf8_next c bs = (c, bs)"
  by (simp add: utf8_next_def)

lemma dec2:
  assumes "0x80 \<le> c" "c < 0x800"
  shows "utf8_next (0xC0 + c div 64) ((0x80 + c mod 64) # bs) = (c, bs)"
proof -
  have b: "0xC2 \<le> 0xC0 + c div 64" "0xC0 + c div 64 < 0xE0" using assms by simp_all
  have "cont (0x80 + c mod 64)" by (simp add: cont_def)
  moreover have "(0xC0 + c div 64 - 0xC0) * 64 + (0x80 + c mod 64 - 0x80) = c" by simp
  ultimately show ?thesis using b by (simp add: utf8_next_def next2_def)
qed

lemma dec3:
  assumes "0x800 \<le> c" "c < 0x10000" "\<not> surrogate c"
  shows "utf8_next (0xE0 + c div 4096) ((0x80 + c div 64 mod 64) # (0x80 + c mod 64) # bs) = (c, bs)"
proof -
  define a where "a = c div 4096"
  define b where "b = c div 64 mod 64"
  define d where "d = c mod 64"
  have c: "c = a * 4096 + b * 64 + d" unfolding a_def b_def d_def by (rule split3)
  have lt: "b < 64" "d < 64" by (simp_all add: b_def d_def)
  have a: "a < 16" using assms(2) by (simp add: a_def)
  have c1: "\<not> (a = 0 \<and> b < 32)" using assms(1) c lt by linarith
  have c2: "\<not> (a = 13 \<and> 32 \<le> b)" using assms(3) c lt unfolding surrogate_def by linarith
  have "next3 (0xE0 + a) ((0x80 + b) # (0x80 + d) # bs) = (a * 4096 + b * 64 + d, bs)"
    using lt c1 c2 by (simp add: next3_def cont_def)
  then have "utf8_next (0xE0 + a) ((0x80 + b) # (0x80 + d) # bs) = (c, bs)"
    using a c by (simp add: utf8_next_def)
  then show ?thesis by (simp add: a_def b_def d_def)
qed

lemma dec4:
  assumes "0x10000 \<le> c" "c < 0x110000"
  shows "utf8_next (0xF0 + c div 262144)
           ((0x80 + c div 4096 mod 64) # (0x80 + c div 64 mod 64) # (0x80 + c mod 64) # bs) = (c, bs)"
proof -
  define a where "a = c div 262144"
  define b where "b = c div 4096 mod 64"
  define e where "e = c div 64 mod 64"
  define d where "d = c mod 64"
  have c: "c = a * 262144 + b * 4096 + e * 64 + d" unfolding a_def b_def d_def e_def by (rule split4)
  have lt: "b < 64" "e < 64" "d < 64" by (simp_all add: b_def d_def e_def)
  have a: "a < 5" using assms(2) by (simp add: a_def)
  have c1: "\<not> (a = 0 \<and> b < 16)" using assms(1) c lt by linarith
  have c2: "\<not> (a = 4 \<and> 16 \<le> b)" using assms(2) c lt by linarith
  have "next4 (0xF0 + a) ((0x80 + b) # (0x80 + e) # (0x80 + d) # bs) =
          (a * 262144 + b * 4096 + e * 64 + d, bs)"
    using lt c1 c2 by (simp add: next4_def cont_def)
  then have "utf8_next (0xF0 + a) ((0x80 + b) # (0x80 + e) # (0x80 + d) # bs) = (c, bs)"
    using a c by (simp add: utf8_next_def)
  then show ?thesis by (simp add: a_def b_def d_def e_def)
qed

lemma utf8_char_decode:
  assumes "c < 0x110000" "\<not> surrogate c"
  shows "utf8_decode (map unat (utf8_char c) @ bs) = c # utf8_decode bs"
proof -
  consider "c < 0x80" | "0x80 \<le> c" "c < 0x800" | "0x800 \<le> c" "c < 0x10000" | "0x10000 \<le> c"
    by linarith
  then show ?thesis
  proof cases
    case 1
    then show ?thesis by (simp add: utf8_char_def unat_byte utf8_decode.simps(2) dec1)
  next
    case 2
    then have a: "0xC0 + c div 64 < 256" "0x80 + c mod 64 < 256" by simp_all
    from 2 a show ?thesis by (simp add: utf8_char_def unat_byte utf8_decode.simps(2) dec2)
  next
    case 3
    then have a: "0xE0 + c div 4096 < 256" "0x80 + c div 64 mod 64 < 256" "0x80 + c mod 64 < 256"
      by simp_all
    from 3 a assms(2) show ?thesis
      by (simp add: utf8_char_def unat_byte utf8_decode.simps(2) dec3)
  next
    case 4
    then have a: "0xF0 + c div 262144 < 256" "0x80 + c div 4096 mod 64 < 256"
        "0x80 + c div 64 mod 64 < 256" "0x80 + c mod 64 < 256"
      using assms(1) by simp_all
    from 4 a assms(1) show ?thesis
      by (simp add: utf8_char_def unat_byte utf8_decode.simps(2) dec4)
  qed
qed

lemma decode_encode:
  "list_all (\<lambda>c. c < 0x110000 \<and> \<not> surrogate c) s \<Longrightarrow>
   utf8_decode (map unat (concat (map utf8_char s)) @ bs) = s @ utf8_decode bs"
  by (induction s) (simp_all add: utf8_char_decode)

lemma encode_strict_Some:
  "encode_strict t = Some bs \<Longrightarrow> bs = concat (map utf8_char t) \<and> \<not> list_ex surrogate t"
  by (auto simp: encode_strict_def split: if_splits)

lemma decode_encode_strict:
  assumes "encode_strict t = Some bs" "wf_str t"
  shows "decode_replace bs = t"
proof -
  from assms(1) have bs: "bs = concat (map utf8_char t)" and ns: "\<not> list_ex surrogate t"
    using encode_strict_Some by blast+
  from ns assms(2) have "list_all (\<lambda>c. c < 0x110000 \<and> \<not> surrogate c) t"
    by (auto simp: wf_str_def list_all_iff list_ex_iff)
  from decode_encode[OF this, of "[]"] show ?thesis
    by (simp add: decode_replace_def bs)
qed

subsection \<open>Encoding with a line ending\<close>

lemma with_eol_append: "with_eol eol data = data @ with_eol eol []"
  by (simp add: with_eol_def)

lemma encode_replace_append: "encode_replace (u @ v) = encode_replace u @ encode_replace v"
  by (simp add: encode_replace_def)

lemma encode_eols:
  "encode_replace [] = []"
  "encode_replace [0x0A] = [0x0A]" "encode_replace [0x0D] = [0x0D]"
  "encode_replace [0x0D, 0x0A] = [0x0D, 0x0A]" "encode_replace (lit ''AT'') = [0x41, 0x54]"
  by (simp_all add: encode_replace_def surrogate_def utf8_char_def lit_def)

subsection \<open>The timestamp\<close>

lemma zpad_0: "zpad w 0 = replicate w 48"
  by (induction w) (simp_all add: replicate_append_same)

lemma zfill_str_nat: "n < 10 ^ Suc w \<Longrightarrow> zfill (Suc w) (str_nat n) = zpad (Suc w) n"
proof (induction w arbitrary: n)
  case 0
  then show ?case by (subst str_nat.simps) (simp add: zfill_def)
next
  case (Suc w)
  show ?case
  proof (cases "n < 10")
    case True
    then show ?thesis
      by (subst str_nat.simps) (simp add: zfill_def zpad_0 replicate_append_same)
  next
    case False
    from Suc.prems have lt: "n div 10 < 10 ^ Suc w" by (simp add: less_mult_imp_div_less)
    have "zfill (Suc (Suc w)) (str_nat n) = zfill (Suc w) (str_nat (n div 10)) @ [48 + n mod 10]"
      using False by (subst str_nat.simps) (simp add: zfill_def)
    also have "\<dots> = zpad (Suc w) (n div 10) @ [48 + n mod 10]"
      using Suc.IH[OF lt] by simp
    finally show ?thesis by simp
  qed
qed

lemma length_zpad: "length (zpad w n) = w"
  by (induction w arbitrary: n) simp_all

lemma zpad_split: "zpad (w + k) n = zpad w (n div 10 ^ k) @ zpad k n"
proof (induction k arbitrary: n)
  case 0
  then show ?case by simp
next
  case (Suc k)
  have "n div 10 div 10 ^ k = n div (10 * 10 ^ k)"
    by (simp add: div_mult2_eq)
  with Suc[of "n div 10"] show ?case by simp
qed

lemma zfill_zpad: "0 < w \<Longrightarrow> n < 10 ^ w \<Longrightarrow> zfill w (str_nat n) = zpad w n"
  using zfill_str_nat[of n "w - 1"] by simp

lemma length_zfill: "0 < w \<Longrightarrow> n < 10 ^ w \<Longrightarrow> length (zfill w (str_nat n)) = w"
  by (simp add: zfill_zpad length_zpad)

lemma ms_of_us:
  assumes "us < 1000000"
  shows "take 3 (zfill 6 (str_nat us)) = zfill 3 (str_nat (us div 1000))"
proof -
  have a: "zfill 6 (str_nat us) = zpad 6 us"
    using assms by (intro zfill_zpad) simp_all
  have b: "zfill 3 (str_nat (us div 1000)) = zpad 3 (us div 1000)"
    using assms by (intro zfill_zpad) simp_all
  have "zpad (3 + 3) us = zpad 3 (us div 10 ^ 3) @ zpad 3 us" by (rule zpad_split)
  then have "take 3 (zpad 6 us) = zpad 3 (us div 1000)"
    by (simp add: length_zpad)
  with a b show ?thesis by simp
qed

lemma length_zfill2: "n < 100 \<Longrightarrow> length (zfill 2 (str_nat n)) = 2"
  by (rule length_zfill) simp_all

lemma length_zfill3: "n < 1000 \<Longrightarrow> length (zfill 3 (str_nat n)) = 3"
  by (rule length_zfill) simp_all

lemma length_zfill6: "n < 1000000 \<Longrightarrow> length (zfill 6 (str_nat n)) = 6"
  by (rule length_zfill) simp_all

lemma timestamp_ms:
  assumes "valid_time t"
  shows "drop_last3 (strftime_HMSf t) =
           zfill 2 (str_nat (hour t)) @ lit '':'' @ zfill 2 (str_nat (minute t)) @ lit '':'' @
           zfill 2 (str_nat (second t)) @ lit ''.'' @ zfill 3 (str_nat (microsecond t div 1000))"
    and "length (drop_last3 (strftime_HMSf t)) = 12"
proof -
  from assms have h: "hour t < 100" "minute t < 100" "second t < 100" "microsecond t < 1000000"
    by (simp_all add: valid_time_def)
  note l = length_zfill2[OF h(1)] length_zfill2[OF h(2)] length_zfill2[OF h(3)] length_zfill6[OF h(4)]
  have us: "microsecond t div 1000 < 1000" using h(4) by simp
  show "drop_last3 (strftime_HMSf t) =
           zfill 2 (str_nat (hour t)) @ lit '':'' @ zfill 2 (str_nat (minute t)) @ lit '':'' @
           zfill 2 (str_nat (second t)) @ lit ''.'' @ zfill 3 (str_nat (microsecond t div 1000))"
    using l ms_of_us[OF h(4)] by (simp add: drop_last3_def strftime_HMSf_def lit_def)
  then show "length (drop_last3 (strftime_HMSf t)) = 12"
    using l length_zfill3[OF us] by (simp add: lit_def)
qed

subsection \<open>Trailing whitespace\<close>

lemma rstrip_Nil_iff: "rstrip t = [] \<longleftrightarrow> list_all isspace t"
  by (simp add: rstrip_def list_all_iff)

lemma rstrip_no_trailing_space: "\<not> ends_in_space (rstrip t)"
proof (cases "dropWhile isspace (rev t)")
  case Nil
  then show ?thesis by (simp add: ends_in_space_def rstrip_def)
next
  case (Cons x xs)
  then have "\<not> isspace x" using hd_dropWhile[of isspace "rev t"] by simp
  with Cons show ?thesis by (simp add: ends_in_space_def rstrip_def)
qed

lemma ends_in_space_append:
  "ends_in_space (u @ v) = (if v = [] then ends_in_space u else ends_in_space v)"
  by (simp add: ends_in_space_def)

lemma prefix_ends_in_space: "ends_in_space (lit ''['' @ x @ lit ''] '')"
  by (simp add: ends_in_space_def lit_def isspace_def)

lemma entry_line_ends_in_space:
  "ends_in_space (entry_line checked (ts, t)) \<longleftrightarrow> checked \<and> truthy ts \<and> list_all isspace t"
proof (cases "checked \<and> truthy ts")
  case False
  then show ?thesis using rstrip_no_trailing_space[of t] by (auto simp: entry_line_def)
next
  case True
  have "ends_in_space ((lit ''['' @ str_opt ts @ lit ''] '') @ rstrip t) \<longleftrightarrow> list_all isspace t"
    unfolding ends_in_space_append[of _ "rstrip t"]
    using rstrip_no_trailing_space[of t] prefix_ends_in_space[of "str_opt ts"]
    by (simp add: rstrip_Nil_iff)
  with True show ?thesis by (simp add: entry_line_def)
qed

section \<open>What each handler leaves alone\<close>

text \<open>\<open>append_text\<close> appends the line and then, with Autoscroll checked, raises.\<close>

lemma append_text_eq:
  "append_text t s =
     (if autoscroll_chk s then Some AttributeError else None, appendPlainText (rstrip t) s)"
  by (simp add: append_text_def appendPlainText_def move_to_end_def Let_def)

lemma append_text_fields:
  "console (snd (append_text t s)) = console s @ [rstrip t]"
  "ser (snd (append_text t s)) = ser s" "reader (snd (append_text t s)) = reader s"
  "ports (snd (append_text t s)) = ports s" "threads (snd (append_text t s)) = threads s"
  "stop_event (snd (append_text t s)) = stop_event s" "queue (snd (append_text t s)) = queue s"
  "connect_btn (snd (append_text t s)) = connect_btn s"
  "port_box (snd (append_text t s)) = port_box s"
  "port_box_enabled (snd (append_text t s)) = port_box_enabled s"
  "port_box_index (snd (append_text t s)) = port_box_index s"
  "send_edit (snd (append_text t s)) = send_edit s" "status (snd (append_text t s)) = status s"
  "files (snd (append_text t s)) = files s"
  by (simp_all add: append_text_eq appendPlainText_def)

lemma connected_cong:
  "ser s' = ser s \<Longrightarrow> ports s' = ports s \<Longrightarrow> connected s' = connected s"
  by (auto simp: connected_def split: option.splits)

lemma connected_frame:
  "connected (snd (append_text t s)) = connected s"
  "connected (showMessage m n s) = connected s"
  by (rule connected_cong; simp add: append_text_fields showMessage_def)+


lemma flush_loop_drains:
  "flush_loop s a =
     (s\<lparr>queue := [], console := console s @ map (entry_line (timestamps_chk s)) (queue s)\<rparr>,
      a \<or> queue s \<noteq> [])"
proof (induction "queue s" arbitrary: s a)
  case Nil
  then show ?case
    by (subst flush_loop.simps) (simp add: get_nowait_def flip: Nil)
next
  case (Cons e q')
  from Cons(2) have q: "queue s = e # q'" by simp
  let ?s1 = "appendPlainText (entry_line (timestamps_chk s) e) (s\<lparr>queue := q'\<rparr>)"
  have "q' = queue ?s1" by (simp add: appendPlainText_def)
  from Cons(1)[OF this, of True]
  have "flush_loop ?s1 True =
     (?s1\<lparr>queue := [], console := console ?s1 @ map (entry_line (timestamps_chk ?s1)) (queue ?s1)\<rparr>, True)"
    by simp
  then show ?case
    by (subst flush_loop.simps) (simp add: get_nowait_def q appendPlainText_def)
qed

text \<open>\<open>flush_queue\<close> shows the queue and then, when it has shown something and
  Autoscroll is checked, raises.\<close>

lemma flush_queue_eq:
  "flush_queue s =
     (if queue s \<noteq> [] \<and> autoscroll_chk s then Some AttributeError else None,
      s\<lparr>queue := [], console := console s @ map (entry_line (timestamps_chk s)) (queue s)\<rparr>)"
  by (simp add: flush_queue_def flush_loop_drains move_to_end_def)

lemma flush_loop_during_fifo:
  "\<exists>k \<le> length arrivals.
     flush_loop_during arrivals s a =
       (s\<lparr>queue := [],
          console := console s @ map (entry_line (timestamps_chk s)) (queue s @ concat (take k arrivals))\<rparr>,
        a \<or> queue s @ concat (take k arrivals) \<noteq> [], drop k arrivals)"
proof (induction arrivals s a rule: flush_loop_during.induct)
  case (1 arrivals s appended)
  define b where "b = arrived arrivals"
  define s1 where "s1 = s\<lparr>queue := foldl put (queue s) (arrived arrivals)\<rparr>"
  have q1: "queue s1 = queue s @ b" by (simp add: s1_def foldl_put b_def)
  have tk: "concat (take (min 1 (length arrivals)) arrivals) = b"
    "drop (min 1 (length arrivals)) arrivals = tl arrivals"
    by (cases arrivals; simp add: b_def arrived_def)+
  show ?case
  proof (cases "queue s @ b")
    case Nil
    then have "flush_loop_during arrivals s appended = (s\<lparr>queue := []\<rparr>, appended, tl arrivals)"
      by (subst flush_loop_during.simps) (simp add: get_nowait_def foldl_put Let_def flip: b_def)
    with Nil tk show ?thesis
      by (intro exI[of _ "min 1 (length arrivals)"]) simp
  next
    case (Cons e q')
    let ?s2 = "appendPlainText (entry_line (timestamps_chk s1) e) (s1\<lparr>queue := q'\<rparr>)"
    have g: "get_nowait (queue s1) = Some (e, q')"
      using Cons q1 by (simp add: get_nowait_def)
    have step: "flush_loop_during arrivals s appended = flush_loop_during (tl arrivals) ?s2 True"
      by (subst flush_loop_during.simps) (simp add: g Let_def flip: s1_def)
    from "1.IH"[OF s1_def g refl]
    obtain k where k: "k \<le> length (tl arrivals)"
      "flush_loop_during (tl arrivals) ?s2 True =
         (?s2\<lparr>queue := [],
            console := console ?s2 @ map (entry_line (timestamps_chk ?s2)) (queue ?s2 @ concat (take k (tl arrivals)))\<rparr>,
          True \<or> queue ?s2 @ concat (take k (tl arrivals)) \<noteq> [], drop k (tl arrivals))"
      by blast
    define k' where "k' = (if arrivals = [] then 0 else Suc k)"
    have k': "k' \<le> length arrivals" "drop k' arrivals = drop k (tl arrivals)"
      using k(1) by (cases arrivals; simp add: k'_def)+
    have "queue s @ concat (take k' arrivals) = (queue s @ b) @ concat (take k (tl arrivals))"
      by (cases arrivals) (simp_all add: k'_def b_def arrived_def)
    then have c: "queue s @ concat (take k' arrivals) = e # q' @ concat (take k (tl arrivals))"
      using Cons by simp
    have "flush_loop_during arrivals s appended =
       (s\<lparr>queue := [],
          console := console s @ map (entry_line (timestamps_chk s)) (queue s @ concat (take k' arrivals))\<rparr>,
        appended \<or> queue s @ concat (take k' arrivals) \<noteq> [], drop k' arrivals)"
      unfolding c k'(2) step k(2) by (simp add: appendPlainText_def s1_def)
    with k'(1) show ?thesis by blast
  qed
qed

lemma flush_queue_during_fifo:
  "\<exists>k \<le> length arrivals.
     console (snd (fst (flush_queue_during arrivals s))) =
       console s @ map (entry_line (timestamps_chk s)) (queue s @ concat (take k arrivals)) \<and>
     queue (snd (fst (flush_queue_during arrivals s))) = [] \<and>
     snd (flush_queue_during arrivals s) = drop k arrivals"
proof -
  from flush_loop_during_fifo[of arrivals s False] obtain k where
    "k \<le> length arrivals"
    "flush_loop_during arrivals s False =
       (s\<lparr>queue := [],
          console := console s @ map (entry_line (timestamps_chk s)) (queue s @ concat (take k arrivals))\<rparr>,
        False \<or> queue s @ concat (take k arrivals) \<noteq> [], drop k arrivals)"
    by blast
  then show ?thesis
    by (intro exI[of _ k]) (simp add: flush_queue_during_def move_to_end_def)
qed

lemma flush_queue_during_no_arrivals: "flush_queue_during [] s = (flush_queue s, [])"
  using flush_loop_during_fifo[of "[]" s False]
  by (simp add: flush_queue_during_def flush_queue_def flush_loop_drains)

lemma flush_queue_frame:
  "ser (snd (flush_queue s)) = ser s" "reader (snd (flush_queue s)) = reader s"
  "ports (snd (flush_queue s)) = ports s" "threads (snd (flush_queue s)) = threads s"
  by (simp_all add: flush_queue_eq)

lemma is_open_tx_update:
  "map is_open (xs[p := (xs ! p)\<lparr>tx := b\<rparr>]) = map is_open xs"
  by (induction xs arbitrary: p) (auto split: nat.splits)

lemma send_text_frame:
  "ser (snd (send_text wo s)) = ser s" "reader (snd (send_text wo s)) = reader s"
  "threads (snd (send_text wo s)) = threads s"
  "map is_open (ports (snd (send_text wo s))) = map is_open (ports s)"
  by (cases wo; cases "ser s";
      simp add: send_text_def Let_def showMessage_def append_text_fields ser_write_def
        is_open_tx_update)+

lemma save_log_fields:
  "ser (save_log path fo s) = ser s" "reader (save_log path fo s) = reader s"
  "threads (save_log path fo s) = threads s" "ports (save_log path fo s) = ports s"
  by (cases fo; cases "written_bytes s";
      simp add: save_log_def showMessage_def)+

lemma thread_step_frame:
  "ser (thread_step t e s) = ser s" "reader (thread_step t e s) = reader s"
  "ports (thread_step t e s) = ports s" "stop_event (thread_step t e s) = stop_event s"
  "length (threads (thread_step t e s)) = length (threads s)"
  by (simp_all add: thread_step_def set_pc_def split: pc.splits prod.splits bool.splits)

lemma steps_frame:
  "ser (fold (thread_step t) es s) = ser s" "reader (fold (thread_step t) es s) = reader s"
  "ports (fold (thread_step t) es s) = ports s"
  "stop_event (fold (thread_step t) es s) = stop_event s"
  "length (threads (fold (thread_step t) es s)) = length (threads s)"
  by (induction es arbitrary: s) (simp_all add: thread_step_frame)

lemma stop_and_join_frame:
  "ser (stop_and_join jo s) = ser s" "reader (stop_and_join jo s) = reader s"
  "ports (stop_and_join jo s) = ports s" "stop_event (stop_and_join jo s)"
  "length (threads (stop_and_join jo s)) = length (threads s)"
  by (simp_all add: stop_and_join_def join_def Let_def steps_frame
      split: option.splits join_outcome.splits)

lemma close_if_open_frame:
  "ser (close_if_open co s) = ser s" "reader (close_if_open co s) = reader s"
  "threads (close_if_open co s) = threads s" "stop_event (close_if_open co s) = stop_event s"
  "length (ports (close_if_open co s)) = length (ports s)"
  by (simp_all add: close_if_open_def close_port_def split: option.splits close_outcome.splits)

lemma disconnect_serial_fields:
  "ser (disconnect_serial jo co s) = None" "reader (disconnect_serial jo co s) = None"
  "stop_event (disconnect_serial jo co s)"
  "threads (disconnect_serial jo co s) = threads (stop_and_join jo s)"
  "ports (disconnect_serial jo co s) = ports (close_if_open co (stop_and_join jo s))"
  by (simp_all add: disconnect_serial_def Let_def showMessage_def close_if_open_frame
      stop_and_join_frame)

section \<open>The example states, evaluated\<close>

lemmas model_defs =
  connect_serial_def disconnect_serial_def toggle_connection_def
  stop_and_join_def join_def close_if_open_def close_port_def thread_step_def set_pc_def
  loop_body_def connected_def alive_def reader_alive_def chosen_device_def currentData_def
  currentText_def truthy_def str_opt_def showMessage_def appendPlainText_def append_text_def
  move_to_end_def put_def Let_def run_events_def alive_count_def open_count_def
  joined_teardown_def closing_teardown_def lit_def rstrip_def isspace_def

lemma example_idle_eq:
  "example_idle =
     \<lparr>ser = None, reader = None, queue = [], stop_event = False,
      port_box = [(lit ''COM3'' @ [0x20, 0x2014, 0x20] @ lit ''USB Serial Port'', Some (lit ''COM3''))],
      port_box_index = 0, port_box_enabled = True,
      baud_box = 115200, connect_btn = lit ''Connect'',
      timestamps_chk = True, autoscroll_chk = True, keep_text_chk = False,
      console = [], send_edit = [], eol_box = lit ''None'',
      status = [], ports = [], threads = [], files = Map.empty, os_linesep = [0x0A]\<rparr>"
  by (simp add: example_idle_def init_def refresh_ports_def)

lemma example_connected_fields:
  "ser example_connected = Some 0" "reader example_connected = Some 0"
  "connected example_connected"
  "console example_connected = []" "send_edit example_connected = []"
  "\<not> keep_text_chk example_connected"
  "ports example_connected = [\<lparr>device = lit ''COM3'', baudrate = 115200, is_open = True, tx = []\<rparr>]"
  "threads example_connected = [\<lparr>t_ser = 0, t_pc = AtLoopHead\<rparr>]"
  by (simp_all add: example_connected_def example_idle_eq model_defs)


lemma example_time_valid: "valid_time example_time"
  by (simp add: valid_time_def example_time_def)

lemma example_time_stamp: "drop_last3 (strftime_HMSf example_time) = lit ''09:05:07.123''"
  by (simp add: drop_last3_def strftime_HMSf_def example_time_def zfill_def str_nat.simps lit_def)

section \<open>The poll loop shows the queue in order\<close>

text \<open>
  Claim C1.  Whatever entries the reader has put on the queue, one call of
  \<open>flush_queue\<close> appends one console line per entry, in the order of the \<open>put\<close>s:
  the console grows by exactly the lines of the entries (none lost, none twice), and
  the queue is empty afterwards.  \<open>get_nowait\<close> never waits: on an empty queue it
  answers at once, which ends the loop.  The same holds when the reader puts entries
  while the pass runs: the pass shows the entries queued at its start and then, in
  order, those of the arrivals it met (the first \<open>k\<close> batches), and leaves the queue
  empty.  The state spoken of is the window as \<open>flush_queue\<close> leaves it, which it
  does by an exception when it has shown something and Autoscroll is checked.
\<close>

theorem flush_queue_fifo:
  "console (snd (flush_queue (s\<lparr>queue := foldl put [] es\<rparr>))) =
     console s @ map (entry_line (timestamps_chk s)) es \<and>
   length (console (snd (flush_queue (s\<lparr>queue := foldl put [] es\<rparr>)))) =
     length (console s) + length es \<and>
   queue (snd (flush_queue (s\<lparr>queue := foldl put [] es\<rparr>))) = [] \<and>
   get_nowait [] = None \<and>
   flush_queue_during [] s = (flush_queue s, []) \<and>
   (\<exists>k \<le> length arrivals.
      console (snd (fst (flush_queue_during arrivals s))) =
        console s @ map (entry_line (timestamps_chk s)) (queue s @ concat (take k arrivals)) \<and>
      queue (snd (fst (flush_queue_during arrivals s))) = [] \<and>
      snd (flush_queue_during arrivals s) = drop k arrivals)"
  using flush_queue_during_fifo[of arrivals s] flush_queue_during_no_arrivals[of s]
  by (simp add: flush_queue_eq foldl_put get_nowait_def)

text \<open>Two entries, a received line and a read error, on the idle window.\<close>

theorem flush_queue_fifo_witness:
  "console (snd (flush_queue (example_idle\<lparr>queue := foldl put []
      [(Some (lit ''09:05:07.123''), lit ''hi'' @ [0x0D, 0x0A]),
       (None, lit ''[ERROR] gone'' @ [0x0A])]\<rparr>))) =
     [lit ''[09:05:07.123] hi'', lit ''[ERROR] gone'']"
  using flush_queue_fifo[where s = example_idle and es =
      "[(Some (lit ''09:05:07.123''), lit ''hi'' @ [0x0D, 0x0A]),
        (None, lit ''[ERROR] gone'' @ [0x0A])]"]
  by (simp add: example_idle_eq entry_line_def model_defs)

section \<open>One iteration of the reader\<close>

text \<open>
  Claim C3.  In an iteration of the reader loop whose read returns bytes that are not
  empty, the reader puts exactly one entry on the queue, the loop goes on, the entry's
  text is the decoded line (decoding never fails and yields well-formed text without
  surrogates, undecodable bytes having become U+FFFD), and its timestamp is the
  clock's \<open>HH:MM:SS.mmm\<close>, twelve characters with the milliseconds being the
  microseconds divided by 1000.  In an iteration whose read raises, the reader puts
  exactly one entry with timestamp \<open>None\<close> and the text \<open>[ERROR] \<close>, the exception's
  text and a newline, and the loop ends there: the iterations that would follow are
  not run.
\<close>

theorem reader_iteration:
  assumes "line \<noteq> []" "valid_time now"
  shows
   "loop_body (Data line) now q =
      (True, q @ [(Some (drop_last3 (strftime_HMSf now)), decode_replace line)]) \<and>
    run ((False, Data line, now) # rest) q =
      run rest (q @ [(Some (drop_last3 (strftime_HMSf now)), decode_replace line)]) \<and>
    list_all (\<lambda>c. c < 0x110000 \<and> \<not> surrogate c) (decode_replace line) \<and>
    drop_last3 (strftime_HMSf now) =
      zfill 2 (str_nat (hour now)) @ lit '':'' @ zfill 2 (str_nat (minute now)) @ lit '':'' @
      zfill 2 (str_nat (second now)) @ lit ''.'' @ zfill 3 (str_nat (microsecond now div 1000)) \<and>
    length (drop_last3 (strftime_HMSf now)) = 12 \<and>
    loop_body (ReadRaises e) now q = (False, q @ [(None, lit ''[ERROR] '' @ e @ [0x0A])]) \<and>
    run ((False, ReadRaises e, now) # rest) q = (False, q @ [(None, lit ''[ERROR] '' @ e @ [0x0A])])"
  using assms(1) timestamp_ms[OF assms(2)] utf8_decode_valid[of "map unat line"]
  by (simp add: loop_body_def put_def decode_replace_def Let_def)

text \<open>The line \<open>hi\<close> with an undecodable byte 0xFF before its line end, read at
  09:05:07.123456; and a read error with a further iteration waiting behind it.\<close>

theorem reader_iteration_witness:
  "[0x68, 0x69, 0xFF, 0x0A] \<noteq> ([] :: pybytes) \<and> valid_time example_time \<and>
   loop_body (Data [0x68, 0x69, 0xFF, 0x0A]) example_time [] =
     (True, [(Some (lit ''09:05:07.123''), [0x68, 0x69, 0xFFFD, 0x0A])]) \<and>
   run [(False, ReadRaises (lit ''gone''), example_time),
        (False, Data [0x68, 0x69, 0xFF, 0x0A], example_time)] [] =
     (False, [(None, lit ''[ERROR] gone'' @ [0x0A])])"
proof -
  have l: "[0x68, 0x69, 0xFF, 0x0A] \<noteq> ([] :: pybytes)" by simp
  have d: "decode_replace [0x68, 0x69, 0xFF, 0x0A] = [0x68, 0x69, 0xFFFD, 0x0A]"
    by (simp add: decode_replace_def utf8_decode.simps(2) utf8_next_def)
  show ?thesis
    using reader_iteration[OF l example_time_valid, of "[]"
        "[(False, Data [0x68, 0x69, 0xFF, 0x0A], example_time)]" "lit ''gone''"]
      example_time_valid d
    by (simp add: example_time_stamp lit_def)
qed

text \<open>The reader as a thread among the others does in two steps, the test of the stop
  event and the read, what one iteration of \<open>run\<close> does.\<close>

lemma thread_iteration:
  assumes "t < length (threads s)" "t_pc (threads s ! t) = AtLoopHead"
  shows
    "(alive (thread_step t (r, now) (thread_step t (r, now) s)) t,
      queue (thread_step t (r, now) (thread_step t (r, now) s))) =
       run [(stop_event s, r, now)] (queue s)"
  using assms
  by (cases "loop_body r now (queue s)"; cases "fst (loop_body r now (queue s))")
     (simp_all add: thread_step_def set_pc_def alive_def)

section \<open>Sending\<close>

lemma send_text_written:
  assumes "ser s = Some p" "connected s"
  shows "tx (ports (snd (send_text Written s)) ! p) =
           tx (ports s ! p) @ encode_replace (with_eol (eol_box s) (send_edit s))"
  using assms by (simp add: send_text_def connected_def ser_write_def Let_def)

text \<open>
  Claim C2.  On a connected window, when the write does not raise, \<open>send_text\<close> hands
  the port exactly the encoded bytes of the input followed by the bytes of the chosen
  line ending: nothing for \<open>None\<close>, 0x0A for \<open>\\n\<close>, 0x0D for \<open>\\r\<close>, 0x0D 0x0A for
  \<open>\\r\\n\<close>; with \<open>AT\<close> and \<open>\\r\\n\<close> these are the four bytes 0x41 0x54 0x0D 0x0A.
  Encoding is total, and a character UTF-8 cannot encode (a surrogate) is sent as
  \<open>?\<close>.
\<close>

theorem send_text_bytes:
  assumes "ser s = Some p" "connected s"
  shows
    "tx (ports (snd (send_text Written s)) ! p) =
       tx (ports s ! p) @ encode_replace (send_edit s) @ encode_replace (with_eol (eol_box s) []) \<and>
     (eol_box s = lit ''None'' \<longrightarrow>
        tx (ports (snd (send_text Written s)) ! p) = tx (ports s ! p) @ encode_replace (send_edit s)) \<and>
     (eol_box s = [0x5C, 0x6E] \<longrightarrow>
        tx (ports (snd (send_text Written s)) ! p) = tx (ports s ! p) @ encode_replace (send_edit s) @ [0x0A]) \<and>
     (eol_box s = [0x5C, 0x72] \<longrightarrow>
        tx (ports (snd (send_text Written s)) ! p) = tx (ports s ! p) @ encode_replace (send_edit s) @ [0x0D]) \<and>
     (eol_box s = [0x5C, 0x72, 0x5C, 0x6E] \<longrightarrow>
        tx (ports (snd (send_text Written s)) ! p) =
          tx (ports s ! p) @ encode_replace (send_edit s) @ [0x0D, 0x0A]) \<and>
     (eol_box s = [0x5C, 0x72, 0x5C, 0x6E] \<and> send_edit s = lit ''AT'' \<longrightarrow>
        tx (ports (snd (send_text Written s)) ! p) = tx (ports s ! p) @ [0x41, 0x54, 0x0D, 0x0A]) \<and>
     (surrogate c \<longrightarrow> encode_replace (u @ [c] @ v) = encode_replace u @ [0x3F] @ encode_replace v)"
proof -
  have e: "tx (ports (snd (send_text Written s)) ! p) =
       tx (ports s ! p) @ encode_replace (send_edit s) @ encode_replace (with_eol (eol_box s) [])"
    using send_text_written[OF assms] with_eol_append[of "eol_box s" "send_edit s"]
    by (simp add: encode_replace_append)
  have n: "with_eol (lit ''None'') [] = []" by (simp add: with_eol_def lit_def)
  have s: "surrogate c \<longrightarrow> encode_replace (u @ [c] @ v) = encode_replace u @ [0x3F] @ encode_replace v"
    by (simp add: encode_replace_def)
  show ?thesis
    using e n s encode_eols by (auto simp: with_eol_def)
qed

text \<open>\<open>AT\<close> with the line ending \<open>\\r\\n\<close>, on a freshly opened port.\<close>

theorem send_text_bytes_witness:
  "ser example_typed = Some 0 \<and> connected example_typed \<and>
   eol_box example_typed = [0x5C, 0x72, 0x5C, 0x6E] \<and> send_edit example_typed = lit ''AT'' \<and>
   tx (ports (snd (send_text Written example_typed)) ! 0) = [0x41, 0x54, 0x0D, 0x0A]"
proof -
  have h: "ser example_typed = Some 0" "connected example_typed"
    "eol_box example_typed = [0x5C, 0x72, 0x5C, 0x6E]" "send_edit example_typed = lit ''AT''"
    "tx (ports example_typed ! 0) = []"
    by (simp_all add: example_typed_def example_connected_fields connected_def)
  show ?thesis
    using send_text_bytes[OF h(1,2)] h by (simp add: encode_eols with_eol_def)
qed

text \<open>
  Claim C5.  On a connected window, when the write raises, \<open>send_text\<close> appends the
  line \<open>[ERROR] send failed: \<close> with the exception's text to the console and leaves
  the port reference, the reader reference, the ports, the threads and the stop event
  as they were, so the window is still connected, and the input field keeps its text.
  In every case the input field is emptied exactly when the window was connected, the
  write did not raise and the keep-after-send box is unchecked; otherwise it is left
  as it was.  The state spoken of is the window as \<open>send_text\<close> leaves it, which it
  does by an exception when it has appended the line and Autoscroll is checked.
\<close>

theorem send_text_failure:
  "(connected s \<longrightarrow>
      console (snd (send_text (WriteRaises e) s)) =
        console s @ [rstrip (lit ''[ERROR] send failed: '' @ e @ [0x0A])] \<and>
      ser (snd (send_text (WriteRaises e) s)) = ser s \<and>
      reader (snd (send_text (WriteRaises e) s)) = reader s \<and>
      ports (snd (send_text (WriteRaises e) s)) = ports s \<and>
      threads (snd (send_text (WriteRaises e) s)) = threads s \<and>
      stop_event (snd (send_text (WriteRaises e) s)) = stop_event s \<and>
      connected (snd (send_text (WriteRaises e) s)) \<and>
      send_edit (snd (send_text (WriteRaises e) s)) = send_edit s) \<and>
   send_edit (snd (send_text wo s)) =
     (if connected s \<and> wo = Written \<and> \<not> keep_text_chk s then [] else send_edit s)"
proof -
  have "connected s \<longrightarrow> connected (snd (send_text (WriteRaises e) s))"
    by (simp add: send_text_def connected_frame)
  then show ?thesis
    by (cases wo)
       (simp_all add: send_text_def Let_def append_text_fields ser_write_def showMessage_def
         split: option.splits)
qed

text \<open>A write that times out, and one that succeeds, with \<open>AT\<close> in the input field
  and the keep-after-send box unchecked.\<close>

theorem send_text_failure_witness:
  "connected example_typed \<and>
   console (snd (send_text (WriteRaises (lit ''Write timeout'')) example_typed)) =
     [lit ''[ERROR] send failed: Write timeout''] \<and>
   send_edit (snd (send_text (WriteRaises (lit ''Write timeout'')) example_typed)) = lit ''AT'' \<and>
   send_edit (snd (send_text Written example_typed)) = []"
proof -
  have h: "connected example_typed" "console example_typed = []"
    "send_edit example_typed = lit ''AT''" "\<not> keep_text_chk example_typed"
    by (simp_all add: example_typed_def example_connected_fields connected_def)
  have r: "rstrip (lit ''[ERROR] send failed: '' @ lit ''Write timeout'' @ [0x0A]) =
             lit ''[ERROR] send failed: Write timeout''"
    by (simp add: rstrip_def isspace_def lit_def)
  show ?thesis
    using send_text_failure[of example_typed "lit ''Write timeout''" Written] h r by simp
qed

section \<open>Connecting\<close>

lemma connect_serial_failed:
  assumes "port_box s \<noteq> []"
  shows
    "connect_serial (OpenRaises e) s =
       (let s1 = appendPlainText
                   (rstrip (lit ''[ERROR] Could not open '' @ chosen_device s @ lit '' @ '' @
                            str_nat (baud_box s) @ lit '': '' @ e @ [0x0A])) s
        in if autoscroll_chk s then (Some AttributeError, s1)
           else (None, showMessage (lit ''Failed to connect: '' @ e) 5000 s1))"
  using assms by (simp add: connect_serial_def append_text_eq Let_def)

text \<open>
  Claim C4.  With a port listed, when opening the device raises, \<open>connect_serial\<close>
  leaves the port reference, the reader reference, the ports, the threads, the stop
  event, the connect button and the port selector as they were (so a disconnected
  window stays disconnected and no reader is started) and appends the line
  \<open>[ERROR] Could not open <device> @ <baud>: <error>\<close> to the console.  The status
  message \<open>Failed to connect: <error>\<close> is shown only when Autoscroll is unchecked:
  with Autoscroll checked, as it is from start-up, \<open>append_text\<close> raises
  \<open>AttributeError\<close> after it has appended the line, the exception leaves
  \<open>connect_serial\<close>, and the call of \<open>showMessage\<close> behind it is not reached, so
  the status is as it was.  When opening succeeds, \<open>connect_serial\<close> returns, the stop
  event is cleared, the window refers to the new open port, and a new reader thread
  on that port is started and referred to.
\<close>

theorem connect_serial_outcomes:
  assumes "port_box s \<noteq> []"
  shows
    "ser (snd (connect_serial (OpenRaises e) s)) = ser s \<and>
     reader (snd (connect_serial (OpenRaises e) s)) = reader s \<and>
     ports (snd (connect_serial (OpenRaises e) s)) = ports s \<and>
     threads (snd (connect_serial (OpenRaises e) s)) = threads s \<and>
     stop_event (snd (connect_serial (OpenRaises e) s)) = stop_event s \<and>
     connected (snd (connect_serial (OpenRaises e) s)) = connected s \<and>
     connect_btn (snd (connect_serial (OpenRaises e) s)) = connect_btn s \<and>
     port_box (snd (connect_serial (OpenRaises e) s)) = port_box s \<and>
     port_box_index (snd (connect_serial (OpenRaises e) s)) = port_box_index s \<and>
     port_box_enabled (snd (connect_serial (OpenRaises e) s)) = port_box_enabled s \<and>
     console (snd (connect_serial (OpenRaises e) s)) =
       console s @ [rstrip (lit ''[ERROR] Could not open '' @ chosen_device s @ lit '' @ '' @
                            str_nat (baud_box s) @ lit '': '' @ e @ [0x0A])] \<and>
     fst (connect_serial (OpenRaises e) s) =
       (if autoscroll_chk s then Some AttributeError else None) \<and>
     status (snd (connect_serial (OpenRaises e) s)) =
       (if autoscroll_chk s then status s
        else status s @ [(lit ''Failed to connect: '' @ e, 5000)]) \<and>
     fst (connect_serial Opened s) = None \<and>
     stop_event (snd (connect_serial Opened s)) = False \<and>
     ser (snd (connect_serial Opened s)) = Some (length (ports s)) \<and>
     connected (snd (connect_serial Opened s)) \<and>
     reader (snd (connect_serial Opened s)) = Some (length (threads s)) \<and>
     reader_alive (snd (connect_serial Opened s)) \<and>
     threads (snd (connect_serial Opened s)) =
       threads s @ [\<lparr>t_ser = length (ports s), t_pc = AtLoopHead\<rparr>]"
proof -
  have f: "connected (snd (connect_serial (OpenRaises e) s)) = connected s"
    by (rule connected_cong)
       (simp_all add: connect_serial_failed[OF assms] Let_def appendPlainText_def showMessage_def)
  have c: "connected (snd (connect_serial Opened s))"
    using assms by (simp add: connect_serial_def Let_def showMessage_def connected_def)
  have o: "fst (connect_serial Opened s) = None \<and>
     stop_event (snd (connect_serial Opened s)) = False \<and>
     ser (snd (connect_serial Opened s)) = Some (length (ports s)) \<and>
     reader (snd (connect_serial Opened s)) = Some (length (threads s)) \<and>
     reader_alive (snd (connect_serial Opened s)) \<and>
     threads (snd (connect_serial Opened s)) =
       threads s @ [\<lparr>t_ser = length (ports s), t_pc = AtLoopHead\<rparr>]"
    using assms
    by (simp add: connect_serial_def Let_def showMessage_def reader_alive_def alive_def)
  show ?thesis
    using f c o
    by (simp add: connect_serial_failed[OF assms] Let_def showMessage_def appendPlainText_def)
qed

text \<open>The window as it is at start-up, Autoscroll checked, COM3 selected at 115200
  baud, the port being busy: the line is on the console, \<open>connect_serial\<close> is left by
  \<open>AttributeError\<close> and the status bar shows nothing.\<close>

theorem connect_serial_outcomes_witness:
  "port_box example_idle \<noteq> [] \<and> autoscroll_chk example_idle \<and>
   ser (snd (connect_serial (OpenRaises (lit ''busy'')) example_idle)) = None \<and>
   threads (snd (connect_serial (OpenRaises (lit ''busy'')) example_idle)) = [] \<and>
   console (snd (connect_serial (OpenRaises (lit ''busy'')) example_idle)) =
     [lit ''[ERROR] Could not open COM3 @ 115200: busy''] \<and>
   fst (connect_serial (OpenRaises (lit ''busy'')) example_idle) = Some AttributeError \<and>
   status (snd (connect_serial (OpenRaises (lit ''busy'')) example_idle)) = [] \<and>
   reader_alive (snd (connect_serial Opened example_idle))"
proof -
  have h: "port_box example_idle \<noteq> []" by (simp add: example_idle_eq)
  have c: "chosen_device example_idle = lit ''COM3''"
    by (simp add: example_idle_eq chosen_device_def currentData_def truthy_def str_opt_def lit_def)
  have r: "rstrip (lit ''[ERROR] Could not open '' @ lit ''COM3'' @ lit '' @ '' @ str_nat 115200 @
                   lit '': '' @ lit ''busy'' @ [0x0A]) =
           lit ''[ERROR] Could not open COM3 @ 115200: busy''"
    by (simp add: rstrip_def isspace_def lit_def str_nat.simps)
  have i: "ser example_idle = None" "threads example_idle = []" "console example_idle = []"
    "status example_idle = []" "baud_box example_idle = 115200" "autoscroll_chk example_idle"
    by (simp_all add: example_idle_eq)
  show ?thesis
    using connect_serial_outcomes[OF h, of "lit ''busy''"] h c r i by (simp add: lit_def)
qed

section \<open>Disconnecting\<close>

lemma thread_step_dead:
  "\<not> alive s t' \<Longrightarrow> \<not> alive (thread_step t e s) t'"
  by (cases "t' = t")
     (auto simp: alive_def thread_step_def set_pc_def split: pc.splits prod.splits bool.splits)




lemma steps_dead: "\<not> alive s t' \<Longrightarrow> \<not> alive (fold (thread_step t) es s) t'"
  by (induction es arbitrary: s) (simp_all add: thread_step_dead)


lemma stop_and_join_dead: "\<not> alive s t \<Longrightarrow> \<not> alive (stop_and_join jo s) t"
proof -
  assume d: "\<not> alive s t"
  have a: "\<not> alive (s\<lparr>stop_event := True\<rparr>) t" using d by (simp add: alive_def)
  show ?thesis
    using a steps_dead[OF a]
    by (simp add: stop_and_join_def join_def Let_def split: option.splits join_outcome.splits)
qed


lemma close_if_open_closed:
  "ser s = Some p \<Longrightarrow> \<not> (p < length (ports (close_if_open Closed s)) \<and>
                               is_open (ports (close_if_open Closed s) ! p))"
  by (simp add: close_if_open_def close_port_def connected_def)




text \<open>
  Claim C10.  Whatever \<open>join\<close> and \<open>close\<close> do, exceptions included, after
  \<open>disconnect_serial\<close> the reader reference and the port reference are \<open>None\<close>, the
  connect button reads \<open>Connect\<close> and the port selector is enabled.  Called on a
  window that is already in that state, it leaves these four, and the ports and
  threads, as they were.
\<close>

theorem disconnect_serial_ui_state:
  "reader (disconnect_serial jo co s) = None \<and>
   ser (disconnect_serial jo co s) = None \<and>
   connect_btn (disconnect_serial jo co s) = lit ''Connect'' \<and>
   port_box_enabled (disconnect_serial jo co s) \<and>
   (ser s = None \<and> reader s = None \<and> connect_btn s = lit ''Connect'' \<and> port_box_enabled s \<longrightarrow>
      reader (disconnect_serial jo co s) = reader s \<and>
      ser (disconnect_serial jo co s) = ser s \<and>
      connect_btn (disconnect_serial jo co s) = connect_btn s \<and>
      port_box_enabled (disconnect_serial jo co s) = port_box_enabled s \<and>
      ports (disconnect_serial jo co s) = ports s \<and>
      threads (disconnect_serial jo co s) = threads s)"
  by (simp add: disconnect_serial_def Let_def showMessage_def stop_and_join_def close_if_open_def)

text \<open>The idle window, already disconnected, with a \<open>join\<close> and a \<open>close\<close> that
  would raise; and the connected window with both raising.\<close>

theorem disconnect_serial_ui_state_witness:
  "ser example_idle = None \<and> reader example_idle = None \<and>
   connect_btn example_idle = lit ''Connect'' \<and> port_box_enabled example_idle \<and>
   ser (disconnect_serial JoinRaises CloseRaises example_idle) = None \<and>
   reader (disconnect_serial JoinRaises CloseRaises example_idle) = None \<and>
   connect_btn (disconnect_serial JoinRaises CloseRaises example_idle) = lit ''Connect'' \<and>
   port_box_enabled (disconnect_serial JoinRaises CloseRaises example_idle) \<and>
   ports (disconnect_serial JoinRaises CloseRaises example_idle) = [] \<and>
   threads (disconnect_serial JoinRaises CloseRaises example_idle) = [] \<and>
   ser example_connected = Some 0 \<and>
   ser (disconnect_serial JoinRaises CloseRaises example_connected) = None \<and>
   reader (disconnect_serial JoinRaises CloseRaises example_connected) = None \<and>
   connect_btn (disconnect_serial JoinRaises CloseRaises example_connected) = lit ''Connect'' \<and>
   port_box_enabled (disconnect_serial JoinRaises CloseRaises example_connected)"
proof -
  have h: "ser example_idle = None" "reader example_idle = None"
    "connect_btn example_idle = lit ''Connect''" "port_box_enabled example_idle"
    "ports example_idle = []" "threads example_idle = []"
    by (simp_all add: example_idle_eq)
  show ?thesis
    using disconnect_serial_ui_state[of JoinRaises CloseRaises example_idle]
      disconnect_serial_ui_state[of JoinRaises CloseRaises example_connected] h
    by (simp add: example_connected_fields)
qed

section \<open>Runs of connects and disconnects\<close>

lemma filter_le1:
  assumes "\<And>i. i < length xs \<Longrightarrow> P (xs ! i) \<Longrightarrow> i = k"
  shows "length (filter P xs) \<le> 1"
proof -
  have "{i. i < length xs \<and> P (xs ! i)} \<subseteq> {k}" using assms by auto
  then have "card {i. i < length xs \<and> P (xs ! i)} \<le> card {k}" by (intro card_mono) auto
  then show ?thesis by (simp add: length_filter_conv_card)
qed

lemma filter_none:
  assumes "\<And>i. i < length xs \<Longrightarrow> \<not> P (xs ! i)"
  shows "length (filter P xs) = 0"
  using assms by (auto simp: filter_empty_conv in_set_conv_nth)

lemma one_reader_counts:
  assumes "one_reader s"
  shows "alive_count s \<le> 1" "\<not> connected s \<Longrightarrow> alive_count s = 0"
proof -
  show "alive_count s \<le> 1"
  proof (cases "reader s")
    case None
    with assms have "alive_count s = 0"
      unfolding alive_count_def by (intro filter_none) (auto simp: one_reader_def)
    then show ?thesis by simp
  next
    case (Some k)
    with assms show ?thesis
      unfolding alive_count_def by (intro filter_le1[where k = k]) (auto simp: one_reader_def)
  qed
  show "alive_count s = 0" if "\<not> connected s"
    using assms that unfolding alive_count_def
    by (intro filter_none) (auto simp: one_reader_def)
qed

lemma one_port_counts:
  assumes "one_port s"
  shows "open_count s \<le> 1" "\<not> connected s \<Longrightarrow> open_count s = 0"
proof -
  show "open_count s \<le> 1"
  proof (cases "ser s")
    case None
    with assms have "open_count s = 0"
      unfolding open_count_def by (intro filter_none) (auto simp: one_port_def)
    then show ?thesis by simp
  next
    case (Some k)
    with assms show ?thesis
      unfolding open_count_def by (intro filter_le1[where k = k]) (auto simp: one_port_def)
  qed
  show "open_count s = 0" if "\<not> connected s"
    using assms that unfolding open_count_def
    by (intro filter_none) (auto simp: one_port_def connected_def)
qed

text \<open>The invariants read only the two references, which ports are open and the
  threads.\<close>

lemma is_open_cong:
  assumes "map is_open (ports s') = map is_open (ports s)"
  shows "length (ports s') = length (ports s)"
    "p < length (ports s) \<Longrightarrow> is_open (ports s' ! p) = is_open (ports s ! p)"
proof -
  from assms show l: "length (ports s') = length (ports s)" by (rule map_eq_imp_length_eq)
  show "is_open (ports s' ! p) = is_open (ports s ! p)" if "p < length (ports s)"
    using arg_cong[OF assms, of "\<lambda>xs. xs ! p"] that l by simp
qed

lemma one_reader_cong:
  assumes "ser s' = ser s" "reader s' = reader s"
    "map is_open (ports s') = map is_open (ports s)" "threads s' = threads s"
  shows "one_reader s' = one_reader s"
proof -
  have c: "connected s' = connected s"
    using is_open_cong[OF assms(3)] assms(1) by (auto simp: connected_def split: option.splits)
  show ?thesis
    unfolding one_reader_def using assms(2,4) c by auto
qed

lemma one_port_cong:
  assumes "ser s' = ser s" "map is_open (ports s') = map is_open (ports s)"
  shows "one_port s' = one_port s"
  unfolding one_port_def using is_open_cong[OF assms(2)] assms(1) by auto

lemma invariants_init: "one_reader (init comports fs sep)" "one_port (init comports fs sep)"
  by (simp_all add: one_reader_def one_port_def init_def refresh_ports_def Let_def)

lemma one_reader_thread_step:
  assumes "one_reader s"
  shows "one_reader (thread_step t e s)"
proof -
  have a: "alive (thread_step t e s) t' \<Longrightarrow> alive s t'" for t'
    using thread_step_dead[of s t' t e] by blast
  have c: "connected (thread_step t e s) = connected s"
    by (rule connected_cong) (simp_all add: thread_step_frame)
  show ?thesis
    using assms a c unfolding one_reader_def alive_def
    by (auto simp: thread_step_frame)
qed

lemma one_port_thread_step: "one_port (thread_step t e s) = one_port s"
  by (simp add: one_port_def thread_step_frame)

text \<open>What \<open>connect_serial\<close> leaves alone when it opens no port.\<close>

lemma connect_serial_frame:
  assumes "length (port_box s) = 0 \<or> oo \<noteq> Opened"
  shows "ser (snd (connect_serial oo s)) = ser s \<and> reader (snd (connect_serial oo s)) = reader s \<and>
    ports (snd (connect_serial oo s)) = ports s \<and> threads (snd (connect_serial oo s)) = threads s"
proof (cases "port_box s = []")
  case True
  then show ?thesis by (simp add: connect_serial_def append_text_fields)
next
  case False
  with assms obtain e where "oo = OpenRaises e" by (cases oo) auto
  then show ?thesis
    by (simp add: connect_serial_failed[OF False] Let_def appendPlainText_def showMessage_def)
qed

lemma one_reader_connect:
  assumes "one_reader s" "\<not> connected s"
  shows "one_reader (snd (connect_serial oo s))"
proof -
  from assms have dead: "\<And>t. t < length (threads s) \<Longrightarrow> t_pc (threads s ! t) = Exited"
    by (auto simp: one_reader_def)
  show ?thesis
  proof (cases "length (port_box s) = 0 \<or> oo \<noteq> Opened")
    case True
    have "one_reader (snd (connect_serial oo s)) = one_reader s"
      by (rule one_reader_cong) (simp_all add: connect_serial_frame[OF True])
    with assms show ?thesis by simp
  next
    case False
    then have oo: "oo = Opened" and pb: "port_box s \<noteq> []" by simp_all
    show ?thesis
      unfolding one_reader_def
      using dead
      by (auto simp: oo pb connect_serial_def Let_def showMessage_def connected_def nth_append)
  qed
qed

lemma one_port_connect:
  assumes "one_port s" "\<not> connected s"
  shows "one_port (snd (connect_serial oo s))"
proof -
  from assms have closed: "\<And>p. p < length (ports s) \<Longrightarrow> \<not> is_open (ports s ! p)"
    by (auto simp: one_port_def connected_def)
  show ?thesis
  proof (cases "length (port_box s) = 0 \<or> oo \<noteq> Opened")
    case True
    have "one_port (snd (connect_serial oo s)) = one_port s"
      by (rule one_port_cong) (simp_all add: connect_serial_frame[OF True])
    with assms show ?thesis by simp
  next
    case False
    then have oo: "oo = Opened" and pb: "port_box s \<noteq> []" by simp_all
    show ?thesis
      unfolding one_port_def
      using closed
      by (auto simp: oo pb connect_serial_def Let_def showMessage_def nth_append)
  qed
qed

text \<open>The reader half of the teardown does not depend on what \<open>close\<close> does, and the
  port half not on what \<open>join\<close> does.\<close>

lemma one_reader_disconnect:
  assumes "one_reader s" "\<not> reader_alive (stop_and_join jo s)"
  shows "one_reader (disconnect_serial jo co s)"
proof -
  have dead: "\<not> alive (stop_and_join jo s) t" for t
  proof
    assume a: "alive (stop_and_join jo s) t"
    then have "alive s t" using stop_and_join_dead[of s t jo] by blast
    with assms(1) have "reader s = Some t" by (auto simp: one_reader_def alive_def)
    with a assms(2) show False by (simp add: reader_alive_def stop_and_join_frame)
  qed
  show ?thesis
    unfolding one_reader_def
    using dead
    by (auto simp: disconnect_serial_fields alive_def stop_and_join_frame)
qed

lemma one_port_disconnect:
  assumes "one_port s"
  shows "one_port (disconnect_serial jo Closed s)"
proof -
  have closed: "\<not> is_open (ports (close_if_open Closed (stop_and_join jo s)) ! p)"
    if "p < length (ports s)" for p
  proof (cases "is_open (ports s ! p)")
    case True
    with assms that have "ser s = Some p" by (auto simp: one_port_def)
    from close_if_open_closed[of "stop_and_join jo s" p] this that
    show ?thesis by (simp add: stop_and_join_frame close_if_open_frame)
  next
    case False
    with that show ?thesis
      by (auto simp: close_if_open_def close_port_def stop_and_join_frame nth_list_update
          connected_def split: option.splits)
  qed
  show ?thesis
    unfolding one_port_def
    using closed
    by (auto simp: disconnect_serial_fields stop_and_join_frame close_if_open_frame)
qed

text \<open>The events other than a click on the connect button and a step of a reader.\<close>

lemma fire_frame:
  assumes "\<And>oo jo co. e \<noteq> ClickConnect oo jo co" "\<And>t env. e \<noteq> ReaderStep t env"
  shows "ser (fire e s) = ser s" "reader (fire e s) = reader s"
    "map is_open (ports (fire e s)) = map is_open (ports s)" "threads (fire e s) = threads s"
proof -
  have "ser (fire e s) = ser s \<and> reader (fire e s) = reader s \<and>
    map is_open (ports (fire e s)) = map is_open (ports s) \<and> threads (fire e s) = threads s"
  proof (cases e)
    case (ClickConnect oo jo co)
    with assms(1) show ?thesis by blast
  next
    case (ReaderStep t env)
    with assms(2) show ?thesis by blast
  qed (simp_all add: flush_queue_frame send_text_frame save_log_fields refresh_ports_def
        clear_log_def Let_def)
  then show "ser (fire e s) = ser s" "reader (fire e s) = reader s"
    "map is_open (ports (fire e s)) = map is_open (ports s)" "threads (fire e s) = threads s"
    by simp_all
qed

lemma one_reader_fire:
  assumes "one_reader s" "joined_teardown e s"
  shows "one_reader (fire e s)"
proof (cases "(\<exists>oo jo co. e = ClickConnect oo jo co) \<or> (\<exists>t env. e = ReaderStep t env)")
  case False
  then have "one_reader (fire e s) = one_reader s"
    by (intro one_reader_cong fire_frame) auto
  with assms(1) show ?thesis by simp
next
  case True
  then show ?thesis
  proof
    assume "\<exists>oo jo co. e = ClickConnect oo jo co"
    then obtain oo jo co where e: "e = ClickConnect oo jo co" by blast
    show ?thesis
    proof (cases "connected s")
      case True
      with assms(2) e have "\<not> reader_alive (stop_and_join jo s)"
        by (simp add: joined_teardown_def)
      with assms(1) True e show ?thesis
        by (simp add: toggle_connection_def one_reader_disconnect)
    next
      case False
      with assms(1) e show ?thesis
        by (simp add: toggle_connection_def one_reader_connect)
    qed
  next
    assume "\<exists>t env. e = ReaderStep t env"
    with assms(1) show ?thesis by (auto simp: one_reader_thread_step)
  qed
qed

lemma one_port_fire:
  assumes "one_port s" "closing_teardown e s"
  shows "one_port (fire e s)"
proof (cases "(\<exists>oo jo co. e = ClickConnect oo jo co) \<or> (\<exists>t env. e = ReaderStep t env)")
  case False
  then have "one_port (fire e s) = one_port s"
    by (intro one_port_cong fire_frame) auto
  with assms(1) show ?thesis by simp
next
  case True
  then show ?thesis
  proof
    assume "\<exists>oo jo co. e = ClickConnect oo jo co"
    then obtain oo jo co where e: "e = ClickConnect oo jo co" by blast
    show ?thesis
    proof (cases "connected s")
      case True
      with assms(2) e have "co = Closed" by (simp add: closing_teardown_def)
      with assms(1) True e show ?thesis
        by (simp add: toggle_connection_def one_port_disconnect)
    next
      case False
      with assms(1) e show ?thesis
        by (simp add: toggle_connection_def one_port_connect)
    qed
  next
    assume "\<exists>t env. e = ReaderStep t env"
    with assms(1) show ?thesis by (auto simp: one_port_thread_step)
  qed
qed

lemma one_reader_run:
  "one_reader s \<Longrightarrow> joined_run es s \<Longrightarrow> one_reader (run_events es s)"
  by (induction es arbitrary: s) (simp_all add: run_events_def one_reader_fire)

lemma one_port_run:
  "one_port s \<Longrightarrow> closing_run es s \<Longrightarrow> one_port (run_events es s)"
  by (induction es arbitrary: s) (simp_all add: run_events_def one_port_fire)

lemma joined_run_take: "joined_run es s \<Longrightarrow> joined_run (take k es) s"
  by (induction es arbitrary: s k) (auto simp: take_Cons split: nat.splits)

lemma closing_run_take: "closing_run es s \<Longrightarrow> closing_run (take k es) s"
  by (induction es arbitrary: s k) (auto simp: take_Cons split: nat.splits)

text \<open>
  Claim C7, as amended.  Take any run of the program from start-up: clicks on the
  connect button, timer ticks, sends, the other widgets, and steps of reader threads,
  in any order.  If in every teardown of the run the reader has exited by the time
  the bounded \<open>join\<close> returns, then, whatever \<open>close\<close> does, at every point of the run
  at most one reader thread is alive, and whenever the window is not connected, which
  is when a click connects, no reader thread is alive.  If in every teardown of the
  run \<open>close\<close> does not raise, then, whatever \<open>join\<close> does, at every point of the run at
  most one port is open, and whenever the window is not connected no port is open.
\<close>

theorem one_reader_in_joined_runs:
  "(joined_run es (init comports fs sep) \<longrightarrow>
      alive_count (run_events (take k es) (init comports fs sep)) \<le> 1 \<and>
      (\<not> connected (run_events (take k es) (init comports fs sep)) \<longrightarrow>
         alive_count (run_events (take k es) (init comports fs sep)) = 0)) \<and>
   (closing_run es (init comports fs sep) \<longrightarrow>
      open_count (run_events (take k es) (init comports fs sep)) \<le> 1 \<and>
      (\<not> connected (run_events (take k es) (init comports fs sep)) \<longrightarrow>
         open_count (run_events (take k es) (init comports fs sep)) = 0))"
proof -
  have r: "one_reader (run_events (take k es) (init comports fs sep))"
    if "joined_run es (init comports fs sep)"
    using that by (intro one_reader_run invariants_init joined_run_take)
  have p: "one_port (run_events (take k es) (init comports fs sep))"
    if "closing_run es (init comports fs sep)"
    using that by (intro one_port_run invariants_init closing_run_take)
  show ?thesis
    using one_reader_counts[OF r] one_port_counts[OF p] by blast
qed

text \<open>Connect, disconnect with a reader that exits during the \<open>join\<close>, connect again:
  after the disconnect nothing is alive or open, at the end one reader is alive and
  one port open.  And the same with a \<open>close\<close> that raises: still no reader is alive
  after the disconnect, and one at the end.\<close>

theorem one_reader_in_joined_runs_witness:
  "joined_run example_clean_run (init [(lit ''COM3'', lit ''USB Serial Port'')] Map.empty [0x0A]) \<and>
   closing_run example_clean_run (init [(lit ''COM3'', lit ''USB Serial Port'')] Map.empty [0x0A]) \<and>
   \<not> connected (run_events (take 3 example_clean_run)
                  (init [(lit ''COM3'', lit ''USB Serial Port'')] Map.empty [0x0A])) \<and>
   alive_count (run_events (take 3 example_clean_run)
                  (init [(lit ''COM3'', lit ''USB Serial Port'')] Map.empty [0x0A])) = 0 \<and>
   open_count (run_events (take 3 example_clean_run)
                  (init [(lit ''COM3'', lit ''USB Serial Port'')] Map.empty [0x0A])) = 0 \<and>
   alive_count (run_events example_clean_run
                  (init [(lit ''COM3'', lit ''USB Serial Port'')] Map.empty [0x0A])) = 1 \<and>
   open_count (run_events example_clean_run
                  (init [(lit ''COM3'', lit ''USB Serial Port'')] Map.empty [0x0A])) = 1 \<and>
   joined_run example_close_raises_run
                  (init [(lit ''COM3'', lit ''USB Serial Port'')] Map.empty [0x0A]) \<and>
   \<not> connected (run_events (take 3 example_close_raises_run)
                  (init [(lit ''COM3'', lit ''USB Serial Port'')] Map.empty [0x0A])) \<and>
   alive_count (run_events (take 3 example_close_raises_run)
                  (init [(lit ''COM3'', lit ''USB Serial Port'')] Map.empty [0x0A])) = 0 \<and>
   alive_count (run_events example_close_raises_run
                  (init [(lit ''COM3'', lit ''USB Serial Port'')] Map.empty [0x0A])) = 1"
proof -
  have i: "init [(lit ''COM3'', lit ''USB Serial Port'')] Map.empty [0x0A] = example_idle"
    by (simp add: example_idle_def)
  have j: "joined_run example_clean_run example_idle"
    by (simp add: example_clean_run_def example_idle_eq model_defs)
  have c: "closing_run example_clean_run example_idle"
    by (simp add: example_clean_run_def example_idle_eq model_defs)
  have n: "\<not> connected (run_events (take 3 example_clean_run) example_idle)"
    by (simp add: example_clean_run_def example_idle_eq model_defs)
  have a: "alive_count (run_events example_clean_run example_idle) = 1"
    by (simp add: example_clean_run_def example_idle_eq model_defs)
  have b: "open_count (run_events example_clean_run example_idle) = 1"
    by (simp add: example_clean_run_def example_idle_eq model_defs)
  have j': "joined_run example_close_raises_run example_idle"
    by (simp add: example_close_raises_run_def example_idle_eq model_defs)
  have n': "\<not> connected (run_events (take 3 example_close_raises_run) example_idle)"
    by (simp add: example_close_raises_run_def example_idle_eq model_defs)
  have a': "alive_count (run_events example_close_raises_run example_idle) = 1"
    by (simp add: example_close_raises_run_def example_idle_eq model_defs)
  note T = one_reader_in_joined_runs[where es = example_clean_run and k = 3
      and comports = "[(lit ''COM3'', lit ''USB Serial Port'')]" and fs = Map.empty
      and sep = "[0x0A]", unfolded i]
  note T' = one_reader_in_joined_runs[where es = example_close_raises_run and k = 3
      and comports = "[(lit ''COM3'', lit ''USB Serial Port'')]" and fs = Map.empty
      and sep = "[0x0A]", unfolded i]
  from T j c n have z: "alive_count (run_events (take 3 example_clean_run) example_idle) = 0"
    "open_count (run_events (take 3 example_clean_run) example_idle) = 0" by blast+
  from T' j' n' have z': "alive_count (run_events (take 3 example_close_raises_run) example_idle) = 0"
    by blast
  from j c n z a b j' n' z' a' show ?thesis unfolding i by blast
qed

text \<open>The claim as first stated fails.  Connect, let the reader enter \<open>readline\<close>,
  disconnect with a \<open>join\<close> that times out, connect again: no \<open>close\<close> raised, the port
  of the first connection is closed, and two reader threads are alive.  And with a
  reader that exits in time and a \<open>close\<close> that raises: the second connect proceeds
  while the port of the first connection is still open, so two ports are open.\<close>

theorem two_readers_after_join_timeout:
  "closing_run example_timeout_run example_idle \<and>
   alive_count (run_events example_timeout_run example_idle) = 2 \<and>
   open_count (run_events example_timeout_run example_idle) = 1 \<and>
   joined_run example_close_raises_run example_idle \<and>
   open_count (run_events (take 3 example_close_raises_run) example_idle) = 1 \<and>
   open_count (run_events example_close_raises_run example_idle) = 2"
proof -
  have 1: "closing_run example_timeout_run example_idle"
    by (simp add: example_timeout_run_def example_idle_eq model_defs)
  have 2: "alive_count (run_events example_timeout_run example_idle) = 2"
    by (simp add: example_timeout_run_def example_idle_eq model_defs)
  have 3: "open_count (run_events example_timeout_run example_idle) = 1"
    by (simp add: example_timeout_run_def example_idle_eq model_defs)
  have 4: "joined_run example_close_raises_run example_idle"
    by (simp add: example_close_raises_run_def example_idle_eq model_defs)
  have 5: "open_count (run_events (take 3 example_close_raises_run) example_idle) = 1"
    by (simp add: example_close_raises_run_def example_idle_eq model_defs)
  have 6: "open_count (run_events example_close_raises_run example_idle) = 2"
    by (simp add: example_close_raises_run_def example_idle_eq model_defs)
  from 1 2 3 4 5 6 show ?thesis by blast
qed

section \<open>What the console shows\<close>

lemma qt_blocks_nonempty: "qt_blocks t \<noteq> []"
  by (induction t rule: qt_blocks.induct) (auto split: list.splits)

lemma qt_blocks_single_empty: "qt_blocks t = [[]] \<longleftrightarrow> t = []"
  by (cases t) (auto split: list.splits simp: qt_blocks_nonempty)

lemma qt_blocks_all: "list_all (list_all (\<lambda>x. \<not> qt_break x)) (qt_blocks t)"
  by (induction t rule: qt_blocks.induct) (auto split: list.splits)

lemma qt_blocks_no_break: "b \<in> set (qt_blocks t) \<Longrightarrow> x \<in> set b \<Longrightarrow> \<not> qt_break x"
  using qt_blocks_all[of t] by (auto simp: list_all_iff)

lemma qt_blocks_one: "\<not> list_ex qt_break t \<Longrightarrow> qt_blocks t = [t]"
  by (induction t) (auto simp: qt_break_def)

lemma qt_blocks_last:
  "last (qt_blocks t) \<noteq> [] \<Longrightarrow> t \<noteq> [] \<and> last (last (qt_blocks t)) = last t"
proof (induction t rule: qt_blocks.induct)
  case 1
  then show ?case by simp
next
  case (2 c cs)
  show ?case
  proof (cases "c = 0x0D \<and> take 1 cs = [0x0A]")
    case True
    then obtain cs' where cs: "cs = 0x0A # cs'" by (cases cs) auto
    have e: "qt_blocks (c # cs) = [] # qt_blocks (tl cs)"
      using True by simp
    from "2.prems" have "last (qt_blocks (tl cs)) \<noteq> []"
      unfolding e by (simp add: qt_blocks_nonempty)
    from "2.IH"(1)[OF True this] show ?thesis
      unfolding e by (simp add: qt_blocks_nonempty cs)
  next
    case False
    show ?thesis
    proof (cases "qt_break c")
      case True
      have e: "qt_blocks (c # cs) = [] # qt_blocks cs"
        by (subst qt_blocks.simps) (simp only: False True if_False if_True)
      from "2.prems" have "last (qt_blocks cs) \<noteq> []"
        unfolding e by (simp add: qt_blocks_nonempty)
      from "2.IH"(2)[OF False True this] show ?thesis
        unfolding e by (simp add: qt_blocks_nonempty)
    next
      case nb: False
      obtain b bs where q: "qt_blocks cs = b # bs"
        using qt_blocks_nonempty[of cs] by (cases "qt_blocks cs") auto
      have e: "qt_blocks (c # cs) = (c # b) # bs"
        by (subst qt_blocks.simps) (simp only: False nb if_False q list.case)
      show ?thesis
      proof (cases "bs = []")
        case True
        show ?thesis
        proof (cases "b = []")
          case True
          with \<open>bs = []\<close> q have "cs = []" using qt_blocks_single_empty[of cs] by simp
          with True \<open>bs = []\<close> show ?thesis unfolding e by simp
        next
          case bn: False
          with True q have "last (qt_blocks cs) \<noteq> []" by simp
          from "2.IH"(3)[OF False nb this] show ?thesis
            unfolding e using q True bn by simp
        qed
      next
        case bsn: False
        with q "2.prems" have "last (qt_blocks cs) \<noteq> []" unfolding e by simp
        from "2.IH"(3)[OF False nb this] show ?thesis
          unfolding e using q bsn by simp
      qed
    qed
  qed
qed

lemma qt_blocks_last_space: "\<not> ends_in_space t \<Longrightarrow> \<not> ends_in_space (last (qt_blocks t))"
  using qt_blocks_last[of t] by (auto simp: ends_in_space_def)

lemma document_snoc: "document (c @ [x]) = qt_append (document c) x"
  by (simp add: document_def)

lemma document_nonempty: "document c \<noteq> []"
  by (induction c rule: rev_induct)
     (simp_all add: document_snoc qt_append_def qt_blocks_nonempty, simp add: document_def)

lemma document_blocks: "set (document c) \<subseteq> insert [] (\<Union>t \<in> set c. set (qt_blocks t))"
proof (induction c rule: rev_induct)
  case Nil
  then show ?case by (simp add: document_def)
next
  case (snoc x c)
  then show ?case by (auto simp: document_snoc qt_append_def)
qed

lemma document_no_break: "b \<in> set (document c) \<Longrightarrow> x \<in> set b \<Longrightarrow> \<not> qt_break x"
  using document_blocks[of c] qt_blocks_no_break by fastforce

lemma document_lines:
  assumes "\<forall>x \<in> set c. \<not> has_break x \<and> \<not> ends_in_space x"
  shows "\<forall>l \<in> set (document c). \<not> ends_in_space l"
proof
  fix l assume "l \<in> set (document c)"
  with document_blocks[of c] have "l = [] \<or> (\<exists>t \<in> set c. l \<in> set (qt_blocks t))" by auto
  then show "\<not> ends_in_space l"
  proof
    assume "l = []" then show ?thesis by (simp add: ends_in_space_def)
  next
    assume "\<exists>t \<in> set c. l \<in> set (qt_blocks t)"
    then obtain t where t: "t \<in> set c" "l \<in> set (qt_blocks t)" by blast
    with assms have "\<not> list_ex qt_break t" by (auto simp: has_break_def list_ex_iff)
    with t(2) have "l = t" by (simp add: qt_blocks_one)
    with t(1) assms show ?thesis by simp
  qed
qed

lemma join_lines_set: "set (join_lines bs) \<subseteq> insert 0x0A (\<Union>b \<in> set bs. set b)"
  by (induction bs rule: join_lines.induct) auto

lemma toPlainText_no_cr: "0x0D \<notin> set (toPlainText c)"
proof
  assume "0x0D \<in> set (toPlainText c)"
  with join_lines_set[of "map (map qt_plain) (document c)"]
  obtain b y where b: "b \<in> set (document c)" "y \<in> set b" "qt_plain y = 0x0D"
    by (auto simp: toPlainText_def)
  from b(3) have "y = 0x0D" by (simp add: qt_plain_def split: if_splits)
  with document_no_break[OF b(1,2)] show False by (simp add: qt_break_def)
qed

lemma split_lines_one: "0x0A \<notin> set b \<Longrightarrow> split_lines b = [b]"
  by (induction b) auto

lemma split_lines_append: "0x0A \<notin> set b \<Longrightarrow> split_lines (b @ 0x0A # r) = b # split_lines r"
  by (induction b) auto

lemma split_lines_join:
  "bs \<noteq> [] \<Longrightarrow> \<forall>b \<in> set bs. 0x0A \<notin> set b \<Longrightarrow> split_lines (join_lines bs) = bs"
  by (induction bs rule: join_lines.induct) (simp_all add: split_lines_one split_lines_append)

lemma plain_lines_text:
  assumes "plain_lines c"
  shows "toPlainText c = join_lines (document c)" "split_lines (toPlainText c) = document c"
proof -
  have h: "map qt_plain b = b" if "b \<in> set (document c)" for b
  proof (rule map_idI)
    fix x assume x: "x \<in> set b"
    with assms that have "x \<noteq> 0x2028 \<and> x \<noteq> 0xA0" by (auto simp: plain_lines_def list_all_iff)
    moreover from document_no_break[OF that x] have "x \<noteq> 0x2029 \<and> x \<noteq> 0xFDD0 \<and> x \<noteq> 0xFDD1"
      by (simp add: qt_break_def)
    ultimately show "qt_plain x = x" by (simp add: qt_plain_def)
  qed
  have "map (map qt_plain) (document c) = document c" by (rule map_idI) (rule h)
  then show t: "toPlainText c = join_lines (document c)" by (simp add: toPlainText_def)
  have "\<forall>b \<in> set (document c). 0x0A \<notin> set b"
    using document_no_break[of _ c "0x0A"] by (auto simp: qt_break_def)
  with document_nonempty[of c] show "split_lines (toPlainText c) = document c"
    unfolding t by (intro split_lines_join)
qed

section \<open>Writing and reading the line separator\<close>

lemma newline_out_Cons:
  "newline_out sep (c # cs) = (if c = 0x0A then sep else [c]) @ newline_out sep cs"
  by (simp add: newline_out_def)

lemma newline_out_lf: "newline_out [0x0A] t = t"
  by (induction t) (simp_all add: newline_out_def)

lemma universal_newlines_id: "0x0D \<notin> set t \<Longrightarrow> universal_newlines t = t"
  by (induction t) auto

lemma universal_newlines_crlf:
  "0x0D \<notin> set t \<Longrightarrow> universal_newlines (newline_out [0x0D, 0x0A] t) = t"
  by (induction t) (simp_all add: newline_out_def)

lemma read_written:
  assumes "0x0D \<notin> set t" "sep = [0x0A] \<or> sep = [0x0D, 0x0A]"
  shows "universal_newlines (newline_out sep t) = t"
  using assms by (auto simp: newline_out_lf universal_newlines_id universal_newlines_crlf)

lemma wf_str_newline_out:
  assumes "wf_str t" "sep = [0x0A] \<or> sep = [0x0D, 0x0A]"
  shows "wf_str (newline_out sep t)"
  using assms by (induction t) (auto simp: wf_str_def newline_out_def)

section \<open>Saving the log\<close>

lemma save_log_failed:
  assumes "path \<noteq> []" "fo \<noteq> FileOk \<or> written_bytes s = None"
  shows "\<exists>msg. status (save_log path fo s) = status s @ [(lit ''Save failed: '' @ msg, 5000)]"
  using assms
  by (cases fo; cases "written_bytes s")
     (simp_all add: save_log_def showMessage_def)

lemma save_log_frame:
  "(save_log path fo s)\<lparr>status := status s, files := files s\<rparr> = s"
  by (cases fo; cases "written_bytes s")
     (simp_all add: save_log_def showMessage_def)

lemma save_log_console: "console (save_log path fo s) = console s"
  using arg_cong[where f = console, OF save_log_frame[where path = path and fo = fo and s = s]]
  by simp

lemma save_log_saved:
  assumes "path \<noteq> []" "written_bytes s = Some bs"
  shows "files (save_log path FileOk s) path = Some bs"
    "status (save_log path FileOk s) = status s @ [(lit ''Saved: '' @ path, 3000)]"
  using assms by (simp_all add: save_log_def showMessage_def)

lemma written_bytes_Some:
  assumes "written_bytes s = Some bs"
  shows "bs = concat (map utf8_char (newline_out (os_linesep s) (toPlainText (console s))))"
    "os_linesep s = [0x0A] \<Longrightarrow> bs = concat (map utf8_char (toPlainText (console s)))"
proof -
  from assms show b: "bs = concat (map utf8_char (newline_out (os_linesep s) (toPlainText (console s))))"
    using encode_strict_Some[of "newline_out (os_linesep s) (toPlainText (console s))" bs]
    by (simp add: written_bytes_def)
  show "bs = concat (map utf8_char (toPlainText (console s)))" if "os_linesep s = [0x0A]"
    using b that by (simp add: newline_out_lf)
qed

lemma read_text_written:
  assumes "written_bytes s = Some bs" "wf_str (toPlainText (console s))"
    "os_linesep s = [0x0A] \<or> os_linesep s = [0x0D, 0x0A]"
  shows "read_text bs = toPlainText (console s)"
proof -
  have "decode_replace bs = newline_out (os_linesep s) (toPlainText (console s))"
    using assms(1) wf_str_newline_out[OF assms(2,3)]
    by (intro decode_encode_strict) (simp_all add: written_bytes_def)
  then show ?thesis
    using read_written[OF toPlainText_no_cr assms(3), of "console s"] by (simp add: read_text_def)
qed

text \<open>
  Claim C8, as amended.  With a file chosen, when neither opening nor writing raises
  and the text can be encoded, \<open>save_log\<close> makes the file's content the UTF-8 bytes of
  the text \<open>toPlainText\<close> gives for the console, each line feed of it written as the
  platform's line separator; where the separator is the line feed, these are the UTF-8
  bytes of that text, byte for byte.  Where the separator is the line feed or a
  carriage return and line feed, reading the file back in text mode gives the text of
  \<open>toPlainText\<close> again, and its lines are the displayed lines when no displayed line
  holds a line separator U+2028 or a no-break space, the characters \<open>toPlainText\<close>
  replaces.  The status shows \<open>Saved: <path>\<close>.  When saving fails (opening or writing
  raises, or the text cannot be encoded) the status shows \<open>Save failed: <error>\<close>.  In
  every case the console is as it was, and so is everything but the status and the
  file system.
\<close>

theorem save_log_writes_console:
  assumes "path \<noteq> []"
  shows
    "(written_bytes s = Some bs \<longrightarrow>
        files (save_log path FileOk s) path = Some bs \<and>
        bs = concat (map utf8_char (newline_out (os_linesep s) (toPlainText (console s)))) \<and>
        (os_linesep s = [0x0A] \<longrightarrow> bs = concat (map utf8_char (toPlainText (console s)))) \<and>
        (wf_str (toPlainText (console s)) \<and>
         (os_linesep s = [0x0A] \<or> os_linesep s = [0x0D, 0x0A]) \<longrightarrow>
           read_text bs = toPlainText (console s) \<and>
           (plain_lines (console s) \<longrightarrow> split_lines (read_text bs) = document (console s))) \<and>
        status (save_log path FileOk s) = status s @ [(lit ''Saved: '' @ path, 3000)]) \<and>
     console (save_log path fo s) = console s \<and>
     (save_log path fo s)\<lparr>status := status s, files := files s\<rparr> = s \<and>
     (fo \<noteq> FileOk \<or> written_bytes s = None \<longrightarrow>
        (\<exists>msg. status (save_log path fo s) = status s @ [(lit ''Save failed: '' @ msg, 5000)]))"
proof -
  have r: "read_text bs = toPlainText (console s) \<and>
           (plain_lines (console s) \<longrightarrow> split_lines (read_text bs) = document (console s))"
    if "written_bytes s = Some bs" "wf_str (toPlainText (console s))"
      "os_linesep s = [0x0A] \<or> os_linesep s = [0x0D, 0x0A]"
    using read_text_written[OF that] plain_lines_text(2)[of "console s"] by simp
  show ?thesis
    using save_log_saved[OF assms, of s bs] written_bytes_Some[of s bs] r
      save_log_failed[OF assms, of fo s]
      save_log_frame[where path = path and fo = fo and s = s] save_log_console[of path fo s]
    by blast
qed

text \<open>Two lines on the console, saved to \<open>log.txt\<close> where the line separator is the
  line feed; and the same with the disk full.\<close>

theorem save_log_writes_console_witness:
  "lit ''log.txt'' \<noteq> [] \<and>
   written_bytes example_log = Some [0x68, 0x69, 0x0A, 0x6F, 0x6B] \<and>
   os_linesep example_log = [0x0A] \<and>
   wf_str (toPlainText (console example_log)) \<and>
   plain_lines (console example_log) \<and>
   FileWriteRaises (lit ''disk full'') 0 \<noteq> FileOk \<and>
   files (save_log (lit ''log.txt'') FileOk example_log) (lit ''log.txt'') =
     Some [0x68, 0x69, 0x0A, 0x6F, 0x6B] \<and>
   read_text [0x68, 0x69, 0x0A, 0x6F, 0x6B] = lit ''hi'' @ [0x0A] @ lit ''ok'' \<and>
   split_lines (read_text [0x68, 0x69, 0x0A, 0x6F, 0x6B]) = [lit ''hi'', lit ''ok''] \<and>
   console (save_log (lit ''log.txt'') (FileWriteRaises (lit ''disk full'') 0) example_log) =
     [lit ''hi'', lit ''ok'']"
proof -
  have p: "lit ''log.txt'' \<noteq> []" by (simp add: lit_def)
  have c: "console example_log = [lit ''hi'', lit ''ok'']"
    by (simp add: example_log_def)
  have o: "os_linesep example_log = [0x0A]"
    by (simp add: example_log_def example_idle_eq)
  have d: "document (console example_log) = [lit ''hi'', lit ''ok'']"
    by (simp add: c document_def qt_append_def qt_break_def lit_def)
  have t: "toPlainText (console example_log) = lit ''hi'' @ [0x0A] @ lit ''ok''"
    by (simp add: toPlainText_def d qt_plain_def lit_def)
  have e: "written_bytes example_log = Some [0x68, 0x69, 0x0A, 0x6F, 0x6B]"
    unfolding written_bytes_def t o
    by (simp add: newline_out_def encode_strict_def surrogate_def utf8_char_def lit_def)
  have w: "wf_str (toPlainText (console example_log))"
    unfolding t by (simp add: wf_str_def lit_def)
  have l: "plain_lines (console example_log)"
    unfolding plain_lines_def d by (simp add: lit_def)
  have n: "FileWriteRaises (lit ''disk full'') 0 \<noteq> FileOk" by simp
  note T = save_log_writes_console[OF p, of example_log "[0x68, 0x69, 0x0A, 0x6F, 0x6B]"
      "FileWriteRaises (lit ''disk full'') 0"]
  from T e have f: "files (save_log (lit ''log.txt'') FileOk example_log) (lit ''log.txt'') =
     Some [0x68, 0x69, 0x0A, 0x6F, 0x6B]" by blast
  from T e w o have "read_text [0x68, 0x69, 0x0A, 0x6F, 0x6B] = toPlainText (console example_log)"
    by blast
  then have r: "read_text [0x68, 0x69, 0x0A, 0x6F, 0x6B] = lit ''hi'' @ [0x0A] @ lit ''ok''"
    unfolding t .
  from T e w o l have "split_lines (read_text [0x68, 0x69, 0x0A, 0x6F, 0x6B]) =
     document (console example_log)" by blast
  then have g: "split_lines (read_text [0x68, 0x69, 0x0A, 0x6F, 0x6B]) = [lit ''hi'', lit ''ok'']"
    unfolding d .
  from T have "console (save_log (lit ''log.txt'') (FileWriteRaises (lit ''disk full'') 0) example_log) =
     console example_log" by blast
  then have k: "console (save_log (lit ''log.txt'') (FileWriteRaises (lit ''disk full'') 0) example_log) =
     [lit ''hi'', lit ''ok'']" unfolding c .
  from p e o w l n f r g k show ?thesis by blast
qed

text \<open>The claim as first stated fails.  On Windows the two displayed lines \<open>hi\<close> and
  \<open>ok\<close> are saved with a carriage return before the line feed, six bytes where the
  displayed text has five.  And on any platform a displayed line \<open>a\<close>, no-break
  space, \<open>b\<close> is saved with a blank in place of the no-break space.\<close>

theorem saved_bytes_differ_from_displayed:
  "document (console example_log_windows) = [[0x68, 0x69], [0x6F, 0x6B]] \<and>
   encode_strict (join_lines (document (console example_log_windows))) =
     Some [0x68, 0x69, 0x0A, 0x6F, 0x6B] \<and>
   files (save_log [0x6C, 0x6F, 0x67] FileOk example_log_windows) [0x6C, 0x6F, 0x67] =
     Some [0x68, 0x69, 0x0D, 0x0A, 0x6F, 0x6B] \<and>
   document (console example_log_nbsp) = [[0x61, 0xA0, 0x62]] \<and>
   encode_strict (join_lines (document (console example_log_nbsp))) =
     Some [0x61, 0xC2, 0xA0, 0x62] \<and>
   files (save_log [0x6C, 0x6F, 0x67] FileOk example_log_nbsp) [0x6C, 0x6F, 0x67] =
     Some [0x61, 0x20, 0x62]"
proof -
  have cw: "console example_log_windows = [[0x68, 0x69], [0x6F, 0x6B]]"
    "os_linesep example_log_windows = [0x0D, 0x0A]"
    by (simp_all add: example_log_windows_def example_log_def lit_def)
  have cn: "console example_log_nbsp = [[0x61, 0xA0, 0x62]]"
    "os_linesep example_log_nbsp = [0x0A]"
    by (simp_all add: example_log_nbsp_def example_idle_eq)
  have dw: "document (console example_log_windows) = [[0x68, 0x69], [0x6F, 0x6B]]"
    by (simp add: cw document_def qt_append_def qt_break_def)
  have dn: "document (console example_log_nbsp) = [[0x61, 0xA0, 0x62]]"
    by (simp add: cn document_def qt_append_def qt_break_def)
  have ew: "encode_strict (join_lines (document (console example_log_windows))) =
     Some [0x68, 0x69, 0x0A, 0x6F, 0x6B]"
    unfolding dw by (simp add: encode_strict_def surrogate_def utf8_char_def)
  have en: "encode_strict (join_lines (document (console example_log_nbsp))) =
     Some [0x61, 0xC2, 0xA0, 0x62]"
    unfolding dn by (simp add: encode_strict_def surrogate_def utf8_char_def)
  have ww: "written_bytes example_log_windows = Some [0x68, 0x69, 0x0D, 0x0A, 0x6F, 0x6B]"
    unfolding written_bytes_def toPlainText_def dw cw(2)
    by (simp add: newline_out_def qt_plain_def encode_strict_def surrogate_def utf8_char_def)
  have wn: "written_bytes example_log_nbsp = Some [0x61, 0x20, 0x62]"
    unfolding written_bytes_def toPlainText_def dn cn(2)
    by (simp add: newline_out_def qt_plain_def encode_strict_def surrogate_def utf8_char_def)
  have fw: "files (save_log [0x6C, 0x6F, 0x67] FileOk example_log_windows) [0x6C, 0x6F, 0x67] =
     Some [0x68, 0x69, 0x0D, 0x0A, 0x6F, 0x6B]"
    by (simp add: save_log_def ww showMessage_def)
  have fn: "files (save_log [0x6C, 0x6F, 0x67] FileOk example_log_nbsp) [0x6C, 0x6F, 0x67] =
     Some [0x61, 0x20, 0x62]"
    by (simp add: save_log_def wn showMessage_def)
  from dw ew fw dn en fn show ?thesis by blast
qed

section \<open>Trailing whitespace of console lines\<close>

text \<open>
  Claim C9, as amended.  \<open>append_text\<close> hands the console its text with the trailing
  whitespace removed, and that text never ends in whitespace.  \<open>flush_queue\<close> hands
  the console, for each entry, the entry's text with the trailing whitespace removed,
  behind the prefix \<open>[<timestamp>] \<close> when timestamps are shown and the entry has
  one.  Such a text ends in whitespace exactly when it carries the prefix and the
  entry's text is all whitespace: it is then the prefix alone, which ends in a blank;
  without prefix it is then empty.  The console puts a text it is handed behind the
  lines it shows, or in their place while it is still empty, as the lines
  \<open>qt_blocks\<close> gives: one line, the text itself, when the text holds no character
  at which the console starts a new line; in any case a last line that does not end
  in whitespace unless the text does.  So when no text handed to the console holds
  such a character or ends in whitespace, no displayed line ends in whitespace.  An
  empty text adds an empty line, except on a console that is still empty, where it
  adds nothing.
\<close>

theorem console_lines_rstripped:
  "console (snd (append_text t s)) = console s @ [rstrip t] \<and>
   \<not> ends_in_space (rstrip t) \<and>
   console (snd (flush_queue s)) = console s @ map (entry_line (timestamps_chk s)) (queue s) \<and>
   entry_line checked (ts, t) =
     (if checked \<and> truthy ts then lit ''['' @ str_opt ts @ lit ''] '' @ rstrip t
      else rstrip t) \<and>
   (ends_in_space (entry_line checked (ts, t)) \<longleftrightarrow>
      checked \<and> truthy ts \<and> list_all isspace t) \<and>
   (list_all isspace t \<longrightarrow>
      entry_line checked (ts, t) =
        (if checked \<and> truthy ts then lit ''['' @ str_opt ts @ lit ''] '' else [])) \<and>
   document (c @ [x]) = (if document c = [[]] then qt_blocks x else document c @ qt_blocks x) \<and>
   (\<not> has_break x \<longrightarrow> qt_blocks x = [x]) \<and>
   (\<not> ends_in_space x \<longrightarrow>
      \<not> ends_in_space (last (qt_blocks x)) \<and> \<not> ends_in_space (last (document (c @ [x])))) \<and>
   ((\<forall>y \<in> set c. \<not> has_break y \<and> \<not> ends_in_space y) \<longrightarrow>
      (\<forall>l \<in> set (document c). \<not> ends_in_space l)) \<and>
   document (c @ [[]]) = (if document c = [[]] then [[]] else document c @ [[]])"
proof -
  have c1: "console (snd (append_text t s)) = console s @ [rstrip t]"
    by (simp add: append_text_fields)
  have c2: "\<not> ends_in_space (rstrip t)"
    by (rule rstrip_no_trailing_space)
  have c3: "console (snd (flush_queue s)) =
      console s @ map (entry_line (timestamps_chk s)) (queue s)"
    by (simp add: flush_queue_eq)
  have c4: "entry_line checked (ts, t) =
     (if checked \<and> truthy ts then lit ''['' @ str_opt ts @ lit ''] '' @ rstrip t
      else rstrip t)"
    by (simp add: entry_line_def)
  have c5: "ends_in_space (entry_line checked (ts, t)) \<longleftrightarrow>
      checked \<and> truthy ts \<and> list_all isspace t"
    by (rule entry_line_ends_in_space)
  have c6: "list_all isspace t \<longrightarrow>
      entry_line checked (ts, t) =
        (if checked \<and> truthy ts then lit ''['' @ str_opt ts @ lit ''] '' else [])"
    using rstrip_Nil_iff[of t] by (simp add: entry_line_def)
  have d: "document (c @ [y]) = (if document c = [[]] then qt_blocks y else document c @ qt_blocks y)"
    for y by (simp add: document_snoc qt_append_def)
  have c7: "document (c @ [x]) = (if document c = [[]] then qt_blocks x else document c @ qt_blocks x)"
    by (rule d)
  have c8: "\<not> has_break x \<longrightarrow> qt_blocks x = [x]"
    using qt_blocks_one[of x] by (auto simp: has_break_def list_ex_iff)
  have l: "last (document (c @ [x])) = last (qt_blocks x)"
    by (simp add: d qt_blocks_nonempty)
  have c9: "\<not> ends_in_space x \<longrightarrow>
      \<not> ends_in_space (last (qt_blocks x)) \<and> \<not> ends_in_space (last (document (c @ [x])))"
    unfolding l using qt_blocks_last_space[of x] by blast
  have c10: "(\<forall>y \<in> set c. \<not> has_break y \<and> \<not> ends_in_space y) \<longrightarrow>
      (\<forall>l \<in> set (document c). \<not> ends_in_space l)"
    using document_lines[of c] by blast
  have c11: "document (c @ [[]]) = (if document c = [[]] then [[]] else document c @ [[]])"
    using d[of "[]"] by simp
  show ?thesis
    by (intro conjI; (rule c1 | rule c2 | rule c3 | rule c4 | rule c5 | rule c6 | rule c7 |
        rule c8 | rule c9 | rule c10 | rule c11))
qed

text \<open>A blank followed by a line end, from an entry with a timestamp, timestamps not
  shown: an empty text.  And the text \<open>ok\<close> handed to a console that shows \<open>hi\<close>:
  the lines are \<open>hi\<close> and \<open>ok\<close>, and neither ends in whitespace.\<close>

theorem console_lines_rstripped_witness:
  "list_all isspace [0x20, 0x0A] \<and>
   entry_line False (Some (lit ''09:05:07.123''), [0x20, 0x0A]) = [] \<and>
   \<not> ends_in_space (entry_line False (Some (lit ''09:05:07.123''), [0x20, 0x0A])) \<and>
   \<not> has_break [0x6F, 0x6B] \<and> \<not> ends_in_space [0x6F, 0x6B] \<and>
   list_all (\<lambda>y. \<not> has_break y \<and> \<not> ends_in_space y) [[0x68, 0x69]] \<and>
   qt_blocks [0x6F, 0x6B] = [[0x6F, 0x6B]] \<and>
   document ([[0x68, 0x69]] @ [[0x6F, 0x6B]]) = [[0x68, 0x69], [0x6F, 0x6B]] \<and>
   \<not> ends_in_space (last (document ([[0x68, 0x69]] @ [[0x6F, 0x6B]]))) \<and>
   list_all (\<lambda>l. \<not> ends_in_space l) (document [[0x68, 0x69]])"
proof -
  have h: "list_all isspace [0x20, 0x0A]" by (simp add: isspace_def)
  have b: "\<not> has_break [0x6F, 0x6B]" "\<not> ends_in_space [0x6F, 0x6B]"
    "list_all (\<lambda>y. \<not> has_break y \<and> \<not> ends_in_space y) [[0x68, 0x69]]"
    by (simp_all add: has_break_def qt_break_def ends_in_space_def isspace_def)
  have d: "document [[0x68, 0x69]] = [[0x68, 0x69]]"
    by (simp add: document_def qt_append_def qt_break_def)
  note T = console_lines_rstripped[of "[0x20, 0x0A]" example_idle False
      "Some (lit ''09:05:07.123'')" "[[0x68, 0x69]]" "[0x6F, 0x6B]"]
  from T h have 1: "entry_line False (Some (lit ''09:05:07.123''), [0x20, 0x0A]) = []"
    "\<not> ends_in_space (entry_line False (Some (lit ''09:05:07.123''), [0x20, 0x0A]))"
    by (simp_all add: rstrip_def isspace_def)
  from T b(1) have 2: "qt_blocks [0x6F, 0x6B] = [[0x6F, 0x6B]]" by blast
  from T have "document ([[0x68, 0x69]] @ [[0x6F, 0x6B]]) =
      (if document [[0x68, 0x69]] = [[]] then qt_blocks [0x6F, 0x6B]
       else document [[0x68, 0x69]] @ qt_blocks [0x6F, 0x6B])" by blast
  then have 3: "document ([[0x68, 0x69]] @ [[0x6F, 0x6B]]) = [[0x68, 0x69], [0x6F, 0x6B]]"
    unfolding d 2 by simp
  from T b(2) have 4: "\<not> ends_in_space (last (document ([[0x68, 0x69]] @ [[0x6F, 0x6B]])))"
    by blast
  from T b(3) have 5: "list_all (\<lambda>l. \<not> ends_in_space l) (document [[0x68, 0x69]])"
    unfolding list_all_iff by blast
  from h 1 b 2 3 4 5 show ?thesis by blast
qed

text \<open>The claim as first stated fails, in three ways.  The device sends an empty
  line, the reader puts the entry on the queue, and with timestamps shown the console
  line is \<open>[09:05:07.123] \<close>, which is not empty and ends in a blank.  The device
  sends \<open>a\<close>, a blank, a carriage return, \<open>b\<close> and a line feed; with timestamps not
  shown the console starts a new line at the carriage return and shows the lines
  \<open>a \<close> and \<open>b\<close>, the first ending in a blank.  And with timestamps not shown, an
  empty line received first, on the empty console, is not displayed: after it and the
  line \<open>x\<close> the console shows the one line \<open>x\<close>.\<close>

theorem console_line_ends_in_space:
  "loop_body (Data [0x0A]) example_time [] = (True, [(Some (lit ''09:05:07.123''), [0x0A])]) \<and>
   document (console (snd (flush_queue
      (example_idle\<lparr>queue := [(Some (lit ''09:05:07.123''), [0x0A])]\<rparr>)))) =
     [lit ''[09:05:07.123] ''] \<and>
   ends_in_space (lit ''[09:05:07.123] '') \<and>
   loop_body (Data [0x61, 0x20, 0x0D, 0x62, 0x0A]) example_time [] =
     (True, [(Some (lit ''09:05:07.123''), [0x61, 0x20, 0x0D, 0x62, 0x0A])]) \<and>
   document (console (snd (flush_queue
      (example_idle\<lparr>timestamps_chk := False,
         queue := [(Some (lit ''09:05:07.123''), [0x61, 0x20, 0x0D, 0x62, 0x0A])]\<rparr>)))) =
     [[0x61, 0x20], [0x62]] \<and>
   ends_in_space [0x61, 0x20] \<and>
   document (console (snd (flush_queue
      (example_idle\<lparr>timestamps_chk := False,
         queue := [(Some (lit ''09:05:07.123''), [0x0A]),
                   (Some (lit ''09:05:07.123''), [0x78, 0x0A])]\<rparr>)))) =
     [[0x78]]"
proof -
  have d: "decode_replace [0x0A] = [0x0A]"
    "decode_replace [0x61, 0x20, 0x0D, 0x62, 0x0A] = [0x61, 0x20, 0x0D, 0x62, 0x0A]"
    by (simp_all add: decode_replace_def utf8_decode.simps(2) utf8_next_def)
  have 1: "loop_body (Data [0x0A]) example_time [] = (True, [(Some (lit ''09:05:07.123''), [0x0A])])"
    by (simp add: loop_body_def put_def Let_def example_time_stamp d)
  have c2: "console (snd (flush_queue (example_idle\<lparr>queue := [(Some (lit ''09:05:07.123''), [0x0A])]\<rparr>))) =
     [lit ''[09:05:07.123] '']"
    by (simp add: flush_queue_eq example_idle_eq entry_line_def model_defs)
  have 2: "document (console (snd (flush_queue
      (example_idle\<lparr>queue := [(Some (lit ''09:05:07.123''), [0x0A])]\<rparr>)))) =
     [lit ''[09:05:07.123] '']"
    unfolding c2 by (simp add: document_def qt_append_def qt_break_def lit_def)
  have 3: "ends_in_space (lit ''[09:05:07.123] '')"
    by (simp add: ends_in_space_def lit_def isspace_def)
  have 4: "loop_body (Data [0x61, 0x20, 0x0D, 0x62, 0x0A]) example_time [] =
     (True, [(Some (lit ''09:05:07.123''), [0x61, 0x20, 0x0D, 0x62, 0x0A])])"
    by (simp add: loop_body_def put_def Let_def example_time_stamp d)
  have c5: "console (snd (flush_queue
      (example_idle\<lparr>timestamps_chk := False,
         queue := [(Some (lit ''09:05:07.123''), [0x61, 0x20, 0x0D, 0x62, 0x0A])]\<rparr>))) =
     [[0x61, 0x20, 0x0D, 0x62]]"
    by (simp add: flush_queue_eq example_idle_eq entry_line_def model_defs)
  have 5: "document (console (snd (flush_queue
      (example_idle\<lparr>timestamps_chk := False,
         queue := [(Some (lit ''09:05:07.123''), [0x61, 0x20, 0x0D, 0x62, 0x0A])]\<rparr>)))) =
     [[0x61, 0x20], [0x62]]"
    unfolding c5 by (simp add: document_def qt_append_def qt_break_def)
  have 6: "ends_in_space [0x61, 0x20]"
    by (simp add: ends_in_space_def isspace_def)
  have c7: "console (snd (flush_queue
      (example_idle\<lparr>timestamps_chk := False,
         queue := [(Some (lit ''09:05:07.123''), [0x0A]),
                   (Some (lit ''09:05:07.123''), [0x78, 0x0A])]\<rparr>))) =
     [[], [0x78]]"
    by (simp add: flush_queue_eq example_idle_eq entry_line_def model_defs)
  have 7: "document (console (snd (flush_queue
      (example_idle\<lparr>timestamps_chk := False,
         queue := [(Some (lit ''09:05:07.123''), [0x0A]),
                   (Some (lit ''09:05:07.123''), [0x78, 0x0A])]\<rparr>)))) =
     [[0x78]]"
    unfolding c7 by (simp add: document_def qt_append_def qt_break_def)
  from 1 2 3 4 5 6 7 show ?thesis by blast
qed

end
